theory Spec2Isabelle
  imports Main "HOL-Library.Word"
begin

section \<open>JavaScript strings\<close>

text \<open>
  A JavaScript string is a sequence of 16-bit code units. Regular expressions without the
  \<^verbatim>\<open>u\<close> flag, \<^verbatim>\<open>substring\<close>, \<^verbatim>\<open>endsWith\<close>, \<^verbatim>\<open>trim\<close> and \<^verbatim>\<open>parseInt\<close> all work on
  code units, so the model does too. \<open>js\<close> embeds an ASCII literal.
\<close>

type_synonym jsstring = "16 word list"

definition js :: "string \<Rightarrow> jsstring" where
  "js s = map (\<lambda>c. of_nat (of_char c)) s"

definition CRLF :: jsstring where
  "CRLF = [0x0D, 0x0A]"

text \<open>
  The class \<^verbatim>\<open>\s\<close> of a regular expression, which is also what \<^verbatim>\<open>trim\<close> strips and what
  \<^verbatim>\<open>parseInt\<close> skips: the WhiteSpace and LineTerminator code points of ECMAScript.
\<close>

definition is_space :: "16 word \<Rightarrow> bool" where
  "is_space c \<longleftrightarrow>
     c = 0x09 \<or> c = 0x0A \<or> c = 0x0B \<or> c = 0x0C \<or> c = 0x0D \<or> c = 0x20 \<or> c = 0xA0 \<or>
     c = 0x1680 \<or> (0x2000 \<le> c \<and> c \<le> 0x200A) \<or> c = 0x2028 \<or> c = 0x2029 \<or>
     c = 0x202F \<or> c = 0x205F \<or> c = 0x3000 \<or> c = 0xFEFF"

definition endsWith :: "jsstring \<Rightarrow> jsstring \<Rightarrow> bool" where
  "endsWith s suffix \<longleftrightarrow>
     length suffix \<le> length s \<and> drop (length s - length suffix) s = suffix"

definition substring :: "nat \<Rightarrow> nat \<Rightarrow> jsstring \<Rightarrow> jsstring" where
  \<comment> \<open>\<^verbatim>\<open>s.substring(a, b)\<close> for \<open>a \<le> b\<close>; indices beyond the end are clamped\<close>
  "substring a b s = take (b - a) (drop a s)"

definition trim :: "jsstring \<Rightarrow> jsstring" where
  "trim s = rev (dropWhile is_space (rev (dropWhile is_space s)))"

fun join :: "jsstring \<Rightarrow> jsstring list \<Rightarrow> jsstring" where
  "join sep [] = []"
| "join sep [x] = x"
| "join sep (x # y # ys) = x @ sep @ join sep (y # ys)"

subsection \<open>Numbers to strings and back\<close>

definition digit_char :: "nat \<Rightarrow> 16 word" where
  "digit_char d = of_nat (48 + d)"

fun nat_to_string :: "nat \<Rightarrow> jsstring" where
  "nat_to_string n =
     (if n < 10 then [digit_char n] else nat_to_string (n div 10) @ [digit_char (n mod 10)])"

declare nat_to_string.simps [simp del]

definition number_to_string :: "int \<Rightarrow> jsstring" where
  \<comment> \<open>a template literal \<^verbatim>\<open>${n}\<close> of an integral Number\<close>
  "number_to_string n =
     (if n < 0 then js ''-'' @ nat_to_string (nat (- n)) else nat_to_string (nat n))"

text \<open>
  \<^verbatim>\<open>parseInt(s)\<close> with no radix: skip leading white space, read a sign, switch to radix 16
  after a \<^verbatim>\<open>0x\<close>/\<^verbatim>\<open>0X\<close> prefix, read the longest run of digits; \<open>None\<close> is NaN. The
  value is exact as long as it is below \<open>2 ^ 53\<close>; the client only parses three characters.
\<close>

definition digit_value :: "nat \<Rightarrow> 16 word \<Rightarrow> nat option" where
  "digit_value radix c =
     (let v = (if 0x30 \<le> c \<and> c \<le> 0x39 then Some (unat c - 48)
               else if 0x61 \<le> c \<and> c \<le> 0x7A then Some (unat c - 87)
               else if 0x41 \<le> c \<and> c \<le> 0x5A then Some (unat c - 55)
               else None)
      in case v of None \<Rightarrow> None | Some d \<Rightarrow> if d < radix then Some d else None)"

fun read_digits :: "nat \<Rightarrow> nat option \<Rightarrow> jsstring \<Rightarrow> nat option" where
  "read_digits radix acc [] = acc"
| "read_digits radix acc (c # cs) =
     (case digit_value radix c of
        None \<Rightarrow> acc
      | Some d \<Rightarrow> read_digits radix (Some ((case acc of None \<Rightarrow> 0 | Some a \<Rightarrow> a) * radix + d)) cs)"

definition parseInt :: "jsstring \<Rightarrow> int option" where
  "parseInt input =
     (let s = dropWhile is_space input;
          negative = (s \<noteq> [] \<and> hd s = 0x2D);
          s = (if s \<noteq> [] \<and> (hd s = 0x2B \<or> hd s = 0x2D) then tl s else s);
          hex = (2 \<le> length s \<and> s ! 0 = 0x30 \<and> (s ! 1 = 0x78 \<or> s ! 1 = 0x58));
          s = (if hex then drop 2 s else s);
          radix = (if hex then 16 else 10)
      in case read_digits radix None s of
           None \<Rightarrow> None
         | Some n \<Rightarrow> Some (if negative then - int n else int n))"

section \<open>Address validation\<close>

text \<open>
  The source tests the address against the literal \<^verbatim>\<open>/^[^\s@]+@[^\s@]+\.[^\s@]+$/\<close>. The
  pattern is kept as data, a sequence of items between the two anchors, and \<open>test\<close> is the
  backtracking matcher.
\<close>

datatype char_class =
    Not_space_or_at      \<comment> \<open>\<^verbatim>\<open>[^\s@]\<close>\<close>
  | Literal "16 word"

datatype regex_item =
    Once char_class
  | Plus char_class      \<comment> \<open>\<^verbatim>\<open>+\<close>: one or more\<close>

fun in_class :: "char_class \<Rightarrow> 16 word \<Rightarrow> bool" where
  "in_class Not_space_or_at c = (\<not> is_space c \<and> c \<noteq> 0x40)"
| "in_class (Literal l) c = (c = l)"

fun test :: "regex_item list \<Rightarrow> jsstring \<Rightarrow> bool" where
  "test [] s = (s = [])"
| "test (Once k # r) [] = False"
| "test (Once k # r) (c # s) = (in_class k c \<and> test r s)"
| "test (Plus k # r) [] = False"
| "test (Plus k # r) (c # s) = (in_class k c \<and> (test (Plus k # r) s \<or> test r s))"

definition emailRegex :: "regex_item list" where
  "emailRegex =
     [Plus Not_space_or_at, Once (Literal 0x40), Plus Not_space_or_at, Once (Literal 0x2E),
      Plus Not_space_or_at]"

definition validateEmail :: "jsstring \<Rightarrow> bool" where
  "validateEmail email = test emailRegex email"


section \<open>Base64 of the UTF-8 encoding\<close>

text \<open>
  \<^verbatim>\<open>Buffer.from(s).toString('base64')\<close>: the string is encoded as UTF-8 (a surrogate pair
  becomes one four-byte sequence, a lone surrogate becomes U+FFFD) and the bytes are
  written in base64 with padding.
\<close>

fun utf8 :: "jsstring \<Rightarrow> nat list" where
  "utf8 [] = []"
| "utf8 [c] =
     (let n = unat c in
      if n < 0x80 then [n]
      else if n < 0x800 then [0xC0 + n div 64, 0x80 + n mod 64]
      else if 0xD800 \<le> n \<and> n \<le> 0xDFFF then [0xEF, 0xBF, 0xBD]
      else [0xE0 + n div 4096, 0x80 + n div 64 mod 64, 0x80 + n mod 64])"
| "utf8 (c # d # cs) =
     (let n = unat c; m = unat d in
      if n < 0x80 then n # utf8 (d # cs)
      else if n < 0x800 then [0xC0 + n div 64, 0x80 + n mod 64] @ utf8 (d # cs)
      else if 0xD800 \<le> n \<and> n \<le> 0xDBFF \<and> 0xDC00 \<le> m \<and> m \<le> 0xDFFF then
        (let p = 0x10000 + (n - 0xD800) * 1024 + (m - 0xDC00) in
         [0xF0 + p div 262144, 0x80 + p div 4096 mod 64, 0x80 + p div 64 mod 64, 0x80 + p mod 64]
         @ utf8 cs)
      else if 0xD800 \<le> n \<and> n \<le> 0xDFFF then [0xEF, 0xBF, 0xBD] @ utf8 (d # cs)
      else [0xE0 + n div 4096, 0x80 + n div 64 mod 64, 0x80 + n mod 64] @ utf8 (d # cs))"

definition base64_char :: "nat \<Rightarrow> 16 word" where
  "base64_char n =
     (if n < 26 then of_nat (65 + n)
      else if n < 52 then of_nat (97 + (n - 26))
      else if n < 62 then of_nat (48 + (n - 52))
      else if n = 62 then 0x2B else 0x2F)"

fun base64 :: "nat list \<Rightarrow> jsstring" where
  "base64 [] = []"
| "base64 [a] = [base64_char (a div 4), base64_char (a mod 4 * 16), 0x3D, 0x3D]"
| "base64 [a, b] =
     [base64_char (a div 4), base64_char (a mod 4 * 16 + b div 16),
      base64_char (b mod 16 * 4), 0x3D]"
| "base64 (a # b # c # bytes) =
     [base64_char (a div 4), base64_char (a mod 4 * 16 + b div 16),
      base64_char (b mod 16 * 4 + c div 64), base64_char (c mod 64)] @ base64 bytes"

section \<open>Data model\<close>

text \<open>An address field of a message is a string or an array of strings.\<close>

datatype addresses = One jsstring | Many "jsstring list"

text \<open>
  \<^verbatim>\<open>EmailMessage\<close> of \<^verbatim>\<open>types.ts\<close>; its \<^verbatim>\<open>attachments\<close> field is never read by the SMTP
  client and is left out. Optional fields are options: \<open>None\<close> is \<^verbatim>\<open>undefined\<close>.
\<close>

record EmailMessage =
  msg_to :: addresses
  msg_from :: jsstring
  msg_subject :: jsstring
  msg_text :: "jsstring option"
  msg_html :: "jsstring option"
  msg_cc :: "addresses option"
  msg_bcc :: "addresses option"
  msg_replyTo :: "jsstring option"

record EmailResult =
  success :: bool
  messageId :: "jsstring option"
  error :: "jsstring option"

record credentials =
  user :: jsstring
  pass :: jsstring

record SMTPConfig =
  host :: jsstring
  port :: int
  secure :: "bool option"
  auth :: "credentials option"
  timeout :: "int option"

text \<open>
  The constructor fills in the default timeout of 30 seconds. The timers that use it are
  not modelled by their durations: the world below says which side wins each race.
\<close>

definition SMTPEmail :: "SMTPConfig \<Rightarrow> SMTPConfig" where
  "SMTPEmail config =
     (case timeout config of None \<Rightarrow> config\<lparr>timeout := Some 30000\<rparr> | Some _ \<Rightarrow> config)"

text \<open>What an \<^verbatim>\<open>if (x)\<close> of the source decides for an optional field.\<close>

fun truthy_string :: "jsstring option \<Rightarrow> bool" where
  "truthy_string None = False"
| "truthy_string (Some s) = (s \<noteq> [])"

fun truthy_addresses :: "addresses option \<Rightarrow> bool" where
  "truthy_addresses None = False"
| "truthy_addresses (Some (One s)) = (s \<noteq> [])"
| "truthy_addresses (Some (Many xs)) = True"

fun truthy_bool :: "bool option \<Rightarrow> bool" where
  "truthy_bool None = False"
| "truthy_bool (Some b) = b"

fun as_array :: "addresses \<Rightarrow> jsstring list" where
  \<comment> \<open>\<^verbatim>\<open>Array.isArray(x) ? x : [x]\<close>\<close>
  "as_array (One s) = [s]"
| "as_array (Many xs) = xs"

fun joined :: "addresses \<Rightarrow> jsstring" where
  \<comment> \<open>\<^verbatim>\<open>Array.isArray(x) ? x.join(', ') : x\<close>\<close>
  "joined (One s) = s"
| "joined (Many xs) = join (js '', '') xs"

section \<open>Message framing\<close>

text \<open>
  The clock and the random generator are read by the caller and handed in:
  \<open>timestamp\<close> is \<^verbatim>\<open>Date.now()\<close> and \<open>random\<close> is
  \<^verbatim>\<open>Math.random().toString(36).substring(2)\<close>.
\<close>

definition generateMessageId :: "int \<Rightarrow> jsstring \<Rightarrow> jsstring" where
  "generateMessageId timestamp random =
     number_to_string timestamp @ js ''.'' @ random @ js ''@synet.email''"

record readings =
  date_string :: jsstring        \<comment> \<open>\<^verbatim>\<open>new Date().toUTCString()\<close> when the content is built\<close>
  header_timestamp :: int        \<comment> \<open>the two readings behind the Message-ID header\<close>
  header_random :: jsstring
  result_timestamp :: int        \<comment> \<open>the two readings behind the returned \<^verbatim>\<open>messageId\<close>\<close>
  result_random :: jsstring

definition buildEmailContent :: "readings \<Rightarrow> EmailMessage \<Rightarrow> jsstring" where
  "buildEmailContent now message =
     (let lines = [];
          lines = lines @ [js ''From: '' @ msg_from message];
          toEmails = joined (msg_to message);
          lines = lines @ [js ''To: '' @ toEmails];
          lines = (if truthy_addresses (msg_cc message)
                   then lines @ [js ''Cc: '' @ joined (the (msg_cc message))] else lines);
          lines = (if truthy_string (msg_replyTo message)
                   then lines @ [js ''Reply-To: '' @ the (msg_replyTo message)] else lines);
          lines = lines @ [js ''Subject: '' @ msg_subject message];
          lines = lines @ [js ''Date: '' @ date_string now];
          lines = lines @ [js ''Message-ID: <''
                           @ generateMessageId (header_timestamp now) (header_random now)
                           @ js ''>''];
          lines = (if truthy_string (msg_html message)
                   then lines @ [js ''MIME-Version: 1.0'']
                              @ [js ''Content-Type: text/html; charset=utf-8'']
                   else lines @ [js ''Content-Type: text/plain; charset=utf-8'']);
          lines = lines @ [[]];
          lines = (if truthy_string (msg_html message) then lines @ [the (msg_html message)]
                   else if truthy_string (msg_text message) then lines @ [the (msg_text message)]
                   else lines)
      in join CRLF lines)"

section \<open>Sockets, the network and promises\<close>

text \<open>
  A thrown value is an \<^verbatim>\<open>Error\<close> with its message or something else. A socket is the
  plain one of \<^verbatim>\<open>net.createConnection\<close>, the TLS one of \<^verbatim>\<open>tls.connect\<close>, or a TLS
  session wrapped around an existing socket.
\<close>

datatype thrown = Error jsstring | Not_an_Error

datatype socket = Socket | TLSSocket | TLSSocket_over socket

datatype action =
    Open socket                    \<comment> \<open>a connection to \<^verbatim>\<open>host:port\<close> is started\<close>
  | Wrap socket                    \<comment> \<open>\<^verbatim>\<open>tlsConnect({socket: plainSocket, ...})\<close>\<close>
  | Write socket jsstring          \<comment> \<open>\<^verbatim>\<open>socket.write\<close>\<close>
  | Destroy socket                 \<comment> \<open>\<^verbatim>\<open>socket.destroy()\<close>\<close>
  | Console_log jsstring
  | Console_error jsstring thrown

text \<open>
  Every suspension point of the source races an event against a timer. The network is
  the record of who wins each race: for the connection and for the TLS upgrade the
  outcome; for each command still to be sent, the chunks of data that reach its listener
  before its timer fires. Beyond the end of \<open>incoming\<close> nothing arrives. The world also
  keeps the actions performed so far, oldest first.
\<close>

datatype outcome = Ready | Failed thrown | Timer

record world =
  connecting :: outcome
  upgrading :: outcome
  incoming :: "jsstring list list"
  actions :: "action list"

type_synonym 'a promise = "world \<Rightarrow> (thrown + 'a) \<times> world"

definition resolve :: "'a \<Rightarrow> 'a promise" where
  "resolve x w = (Inr x, w)"

definition reject :: "thrown \<Rightarrow> 'a promise" where
  "reject e w = (Inl e, w)"

definition await :: "'a promise \<Rightarrow> ('a \<Rightarrow> 'b promise) \<Rightarrow> 'b promise" where
  "await p k w = (case p w of (Inl e, w') \<Rightarrow> (Inl e, w') | (Inr x, w') \<Rightarrow> k x w')"

definition perform :: "action \<Rightarrow> unit promise" where
  "perform a w = (Inr (), w\<lparr>actions := actions w @ [a]\<rparr>)"

definition settle :: "outcome \<Rightarrow> jsstring \<Rightarrow> 'a \<Rightarrow> 'a promise" where
  \<comment> \<open>the connect event resolves, the error event rejects, the timer rejects with its message\<close>
  "settle r timeout_message x =
     (case r of Ready \<Rightarrow> resolve x | Failed e \<Rightarrow> reject e
      | Timer \<Rightarrow> reject (Error timeout_message))"


section \<open>The SMTP client\<close>

subsection \<open>One command and its response\<close>

text \<open>
  \<open>onData\<close> is the listener of \<open>sendCommand\<close>: it appends each chunk to the response
  and stops at the first accumulation that ends in CRLF. \<open>None\<close>: the chunks ran out,
  so the timer fires.
\<close>

fun onData :: "jsstring \<Rightarrow> jsstring list \<Rightarrow> jsstring option" where
  "onData response [] = None"
| "onData response (data # later) =
     (let response = response @ data in
      if endsWith response CRLF then Some response else onData response later)"

fun at_least :: "int option \<Rightarrow> int \<Rightarrow> bool" where
  \<comment> \<open>\<^verbatim>\<open>code >= n\<close>, false when \<^verbatim>\<open>code\<close> is NaN\<close>
  "at_least None n = False"
| "at_least (Some code) n = (n \<le> code)"

definition settled :: "jsstring \<Rightarrow> jsstring list \<Rightarrow> thrown + jsstring" where
  \<comment> \<open>how the promise of \<open>sendCommand\<close> settles, given the chunks that reach its listener\<close>
  "settled command chunks =
     (case onData [] chunks of
        None \<Rightarrow> Inl (Error (js ''Command timeout: '' @ command))
      | Some response \<Rightarrow>
          (let code = parseInt (substring 0 3 response) in
           if at_least code 400
           then Inl (Error (js ''SMTP Error '' @ number_to_string (the code) @ js '': ''
                            @ trim response))
           else Inr (trim response)))"

definition sendCommand :: "socket \<Rightarrow> jsstring \<Rightarrow> jsstring promise" where
  "sendCommand socket command w =
     (let chunks = (case incoming w of [] \<Rightarrow> [] | data # _ \<Rightarrow> data);
          w = w\<lparr>actions := actions w @ [Write socket (command @ CRLF)],
                incoming := tl (incoming w)\<rparr>
      in (settled command chunks, w))"

subsection \<open>Connecting, upgrading, authenticating\<close>

definition createConnection :: "SMTPConfig \<Rightarrow> socket promise" where
  "createConnection config =
     (let socket = (if truthy_bool (secure config) then TLSSocket else Socket) in
      await (perform (Open socket)) (\<lambda>_ w.
        settle (connecting w) (js ''Connection timeout'') socket w))"

definition upgradeToTLS :: "SMTPConfig \<Rightarrow> socket \<Rightarrow> socket promise" where
  "upgradeToTLS config plainSocket =
     (let tlsSocket = TLSSocket_over plainSocket in
      await (perform (Wrap plainSocket)) (\<lambda>_ w.
        case upgrading w of
          Ready \<Rightarrow> await (perform (Console_log (js ''TLS upgrade successful'')))
                     (\<lambda>_. resolve tlsSocket) w
        | Failed e \<Rightarrow> await (perform (Console_error (js ''TLS upgrade failed:'') e))
                        (\<lambda>_. reject e) w
        | Timer \<Rightarrow> reject (Error (js ''TLS upgrade timeout'')) w))"

definition authenticate :: "SMTPConfig \<Rightarrow> socket \<Rightarrow> unit promise" where
  "authenticate config socket =
     (case auth config of
        None \<Rightarrow> reject (Error (js ''Authentication requested but no auth config provided''))
      | Some login \<Rightarrow>
          await (sendCommand socket (js ''AUTH LOGIN'')) (\<lambda>_.
          let userB64 = base64 (utf8 (user login)) in
          await (sendCommand socket userB64) (\<lambda>_.
          let passB64 = base64 (utf8 (pass login)) in
          await (sendCommand socket passB64) (\<lambda>_.
          resolve ()))))"

definition startTLS :: "SMTPConfig \<Rightarrow> socket \<Rightarrow> socket promise" where
  \<comment> \<open>the block under \<^verbatim>\<open>if (!this.config.secure && this.config.port !== 465)\<close>, which both
      operations share; it yields the socket that \<^verbatim>\<open>socket\<close> names afterwards\<close>
  "startTLS config socket =
     (if \<not> truthy_bool (secure config) \<and> port config \<noteq> 465 then
        await (sendCommand socket (js ''STARTTLS'')) (\<lambda>_.
        await (upgradeToTLS config socket) (\<lambda>socket.
        await (sendCommand socket (js ''EHLO localhost'')) (\<lambda>_.
        resolve socket)))
      else resolve socket)"

subsection \<open>checkConnection\<close>

definition checkConnection_try :: "SMTPConfig \<Rightarrow> bool promise" where
  "checkConnection_try config =
     await (createConnection config) (\<lambda>socket.
     await (sendCommand socket (js ''EHLO localhost'')) (\<lambda>_.
     await (startTLS config socket) (\<lambda>socket.
     await (if auth config \<noteq> None then authenticate config socket else resolve ()) (\<lambda>_.
     await (sendCommand socket (js ''QUIT'')) (\<lambda>_.
     await (perform (Destroy socket)) (\<lambda>_.
     resolve True))))))"

definition checkConnection :: "SMTPConfig \<Rightarrow> world \<Rightarrow> bool \<times> world" where
  "checkConnection config w =
     (case checkConnection_try config w of
        (Inr connected, w') \<Rightarrow> (connected, w')
      | (Inl e, w') \<Rightarrow>
          (False, w'\<lparr>actions := actions w' @ [Console_error (js ''SMTP Connection Error:'') e]\<rparr>))"

subsection \<open>send\<close>

fun rcptTo :: "socket \<Rightarrow> jsstring list \<Rightarrow> unit promise" where
  \<comment> \<open>\<^verbatim>\<open>for (const email of emails) await this.sendCommand(socket, `RCPT TO:<${email}>`)\<close>\<close>
  "rcptTo socket [] = resolve ()"
| "rcptTo socket (email # emails) =
     await (sendCommand socket (js ''RCPT TO:<'' @ email @ js ''>'')) (\<lambda>_.
     rcptTo socket emails)"

definition send_try :: "SMTPConfig \<Rightarrow> readings \<Rightarrow> EmailMessage \<Rightarrow> jsstring list \<Rightarrow> EmailResult promise" where
  \<comment> \<open>the \<^verbatim>\<open>try\<close> block of \<open>send\<close> from \<^verbatim>\<open>createConnection\<close> on\<close>
  "send_try config now message toEmails =
     await (createConnection config) (\<lambda>socket.
     await (sendCommand socket (js ''EHLO localhost'')) (\<lambda>_.
     await (startTLS config socket) (\<lambda>socket.
     await (if auth config \<noteq> None then authenticate config socket else resolve ()) (\<lambda>_.
     await (sendCommand socket (js ''MAIL FROM:<'' @ msg_from message @ js ''>'')) (\<lambda>_.
     await (rcptTo socket toEmails) (\<lambda>_.
     await (if truthy_addresses (msg_cc message)
            then rcptTo socket (as_array (the (msg_cc message))) else resolve ()) (\<lambda>_.
     await (if truthy_addresses (msg_bcc message)
            then rcptTo socket (as_array (the (msg_bcc message))) else resolve ()) (\<lambda>_.
     await (sendCommand socket (js ''DATA'')) (\<lambda>_.
     let emailContent = buildEmailContent now message in
     await (sendCommand socket (emailContent @ CRLF @ js ''.'')) (\<lambda>_.
     await (sendCommand socket (js ''QUIT'')) (\<lambda>_.
     await (perform (Destroy socket)) (\<lambda>_.
     resolve \<lparr>success = True,
              messageId = Some (generateMessageId (result_timestamp now) (result_random now)),
              error = None\<rparr>))))))))))))"

definition send :: "SMTPConfig \<Rightarrow> readings \<Rightarrow> EmailMessage \<Rightarrow> world \<Rightarrow> EmailResult \<times> world" where
  "send config now message w =
     (let toEmails = as_array (msg_to message) in
      case find (\<lambda>email. \<not> validateEmail email) toEmails of
        Some email \<Rightarrow>
          (\<lparr>success = False, messageId = None,
            error = Some (js ''Invalid email address: '' @ email)\<rparr>, w)
      | None \<Rightarrow>
          if \<not> validateEmail (msg_from message) then
            (\<lparr>success = False, messageId = None,
              error = Some (js ''Invalid from email address: '' @ msg_from message)\<rparr>, w)
          else
            (case send_try config now message toEmails w of
               (Inr result, w') \<Rightarrow> (result, w')
             | (Inl e, w') \<Rightarrow>
                 (\<lparr>success = False, messageId = None,
                   error = Some (case e of Error message \<Rightarrow> message
                                 | Not_an_Error \<Rightarrow> js ''Unknown SMTP error'')\<rparr>, w')))"


section \<open>Notions used to state the properties\<close>

subsection \<open>The shape of an address\<close>

text \<open>
  The shape the specification gives for an accepted address, word for word: a
  non-whitespace local part, an \<^verbatim>\<open>@\<close>, and a non-whitespace domain part containing a dot.
\<close>

definition non_whitespace :: "jsstring \<Rightarrow> bool" where
  "non_whitespace p \<longleftrightarrow> p \<noteq> [] \<and> (\<forall>c \<in> set p. \<not> is_space c)"

definition described_address :: "jsstring \<Rightarrow> bool" where
  "described_address s \<longleftrightarrow>
     (\<exists>i < length s. s ! i = 0x40 \<and> non_whitespace (take i s) \<and>
        non_whitespace (drop (Suc i) s) \<and> 0x2E \<in> set (drop (Suc i) s))"

text \<open>A run of one or more characters, none of them white space or \<^verbatim>\<open>@\<close>.\<close>

definition address_part :: "jsstring \<Rightarrow> bool" where
  "address_part p \<longleftrightarrow> p \<noteq> [] \<and> (\<forall>c \<in> set p. \<not> is_space c \<and> c \<noteq> 0x40)"

subsection \<open>Responses\<close>

definition is_digit :: "16 word \<Rightarrow> bool" where
  "is_digit c \<longleftrightarrow> 0x30 \<le> c \<and> c \<le> 0x39"

text \<open>The leading three-digit status code of a response, when it has one.\<close>

definition status_code :: "jsstring \<Rightarrow> nat option" where
  "status_code response =
     (case response of
        a # b # c # _ \<Rightarrow>
          if is_digit a \<and> is_digit b \<and> is_digit c
          then Some (100 * (unat a - 48) + 10 * (unat b - 48) + (unat c - 48)) else None
      | _ \<Rightarrow> None)"

text \<open>
  \<open>reply w i\<close> is what reaches the listener of the \<open>i\<close>-th command sent from \<open>w\<close> on,
  and it is accepted when the promise of that command resolves.
\<close>

definition reply :: "world \<Rightarrow> nat \<Rightarrow> jsstring list" where
  "reply w i = (if i < length (incoming w) then incoming w ! i else [])"

definition accepted :: "jsstring list \<Rightarrow> bool" where
  "accepted chunks =
     (case onData [] chunks of
        None \<Rightarrow> False
      | Some response \<Rightarrow> \<not> at_least (parseInt (substring 0 3 response)) 400)"

subsection \<open>The dialogue as an ordered list of steps\<close>

text \<open>
  The specification lays the dialogue out as a fixed sequence of steps, run one after the
  other until one fails. \<open>run_steps\<close> is that driver; \<open>send_steps\<close> and
  \<open>checkConnection_steps\<close> are the sequences.
\<close>

datatype step = Command socket jsstring | Upgrade socket

fun run_steps :: "SMTPConfig \<Rightarrow> step list \<Rightarrow> unit promise" where
  "run_steps config [] = resolve ()"
| "run_steps config (Command socket command # steps) =
     await (sendCommand socket command) (\<lambda>_. run_steps config steps)"
| "run_steps config (Upgrade socket # steps) =
     await (upgradeToTLS config socket) (\<lambda>_. run_steps config steps)"

definition first_socket :: "SMTPConfig \<Rightarrow> socket" where
  "first_socket config = (if truthy_bool (secure config) then TLSSocket else Socket)"

definition uses_starttls :: "SMTPConfig \<Rightarrow> bool" where
  "uses_starttls config \<longleftrightarrow> \<not> truthy_bool (secure config) \<and> port config \<noteq> 465"

definition session_socket :: "SMTPConfig \<Rightarrow> socket" where
  "session_socket config =
     (if uses_starttls config then TLSSocket_over (first_socket config)
      else first_socket config)"

definition starttls_steps :: "SMTPConfig \<Rightarrow> step list" where
  "starttls_steps config =
     (if uses_starttls config
      then [Command (first_socket config) (js ''STARTTLS''),
            Upgrade (first_socket config),
            Command (session_socket config) (js ''EHLO localhost'')]
      else [])"

definition login_steps :: "SMTPConfig \<Rightarrow> step list" where
  "login_steps config =
     (case auth config of
        None \<Rightarrow> []
      | Some login \<Rightarrow>
          map (Command (session_socket config))
            [js ''AUTH LOGIN'', base64 (utf8 (user login)), base64 (utf8 (pass login))])"

definition handshake_steps :: "SMTPConfig \<Rightarrow> step list" where
  "handshake_steps config =
     [Command (first_socket config) (js ''EHLO localhost'')]
     @ starttls_steps config @ login_steps config"

definition recipients :: "addresses option \<Rightarrow> jsstring list" where
  \<comment> \<open>the addresses of an optional field that the source loops over\<close>
  "recipients field = (if truthy_addresses field then as_array (the field) else [])"

definition rcpt :: "jsstring \<Rightarrow> jsstring" where
  "rcpt email = js ''RCPT TO:<'' @ email @ js ''>''"

definition transfer_steps :: "SMTPConfig \<Rightarrow> readings \<Rightarrow> EmailMessage \<Rightarrow> step list" where
  "transfer_steps config now message =
     map (Command (session_socket config))
       ([js ''MAIL FROM:<'' @ msg_from message @ js ''>'']
        @ map rcpt (as_array (msg_to message))
        @ map rcpt (recipients (msg_cc message))
        @ map rcpt (recipients (msg_bcc message))
        @ [js ''DATA'', buildEmailContent now message @ CRLF @ js ''.'', js ''QUIT''])"

definition send_steps :: "SMTPConfig \<Rightarrow> readings \<Rightarrow> EmailMessage \<Rightarrow> step list" where
  "send_steps config now message = handshake_steps config @ transfer_steps config now message"

definition checkConnection_steps :: "SMTPConfig \<Rightarrow> step list" where
  "checkConnection_steps config =
     handshake_steps config @ [Command (session_socket config) (js ''QUIT'')]"

text \<open>The lines a list of steps puts on the wire, and the lines a world has seen written.\<close>

fun commands :: "step list \<Rightarrow> (socket \<times> jsstring) list" where
  "commands [] = []"
| "commands (Command socket command # steps) = (socket, command @ CRLF) # commands steps"
| "commands (Upgrade socket # steps) = commands steps"

fun written :: "action list \<Rightarrow> (socket \<times> jsstring) list" where
  "written [] = []"
| "written (Write socket line # as) = (socket, line) # written as"
| "written (a # as) = written as"

fun upgrade_before :: "step list \<Rightarrow> nat \<Rightarrow> bool" where
  \<comment> \<open>an upgrade stands before the \<open>k\<close>-th command of the list\<close>
  "upgrade_before [] k = False"
| "upgrade_before (Upgrade socket # steps) k = True"
| "upgrade_before (Command socket command # steps) 0 = False"
| "upgrade_before (Command socket command # steps) (Suc k) = upgrade_before steps k"


subsection \<open>The framed message\<close>

text \<open>
  The header block and the body as the specification lists them. A field counts as
  present when the test \<^verbatim>\<open>if (message.field)\<close> of the source passes: it is defined and
  not the empty string (an array always passes).
\<close>

definition header_lines :: "readings \<Rightarrow> EmailMessage \<Rightarrow> jsstring list" where
  "header_lines now message =
     [js ''From: '' @ msg_from message,
      js ''To: '' @ joined (msg_to message)]
     @ (if truthy_addresses (msg_cc message)
        then [js ''Cc: '' @ joined (the (msg_cc message))] else [])
     @ (if truthy_string (msg_replyTo message)
        then [js ''Reply-To: '' @ the (msg_replyTo message)] else [])
     @ [js ''Subject: '' @ msg_subject message,
        js ''Date: '' @ date_string now,
        js ''Message-ID: <'' @ generateMessageId (header_timestamp now) (header_random now)
          @ js ''>'']
     @ (if truthy_string (msg_html message)
        then [js ''MIME-Version: 1.0'', js ''Content-Type: text/html; charset=utf-8'']
        else [js ''Content-Type: text/plain; charset=utf-8''])"

definition body :: "EmailMessage \<Rightarrow> jsstring option" where
  "body message =
     (if truthy_string (msg_html message) then msg_html message
      else if truthy_string (msg_text message) then msg_text message
      else None)"

subsection \<open>Example inputs\<close>

text \<open>
  A network on which the connection and the upgrade succeed and whose server sends the
  given replies, one per command; and the reply of a server that agrees.
\<close>

definition answering :: "jsstring list list \<Rightarrow> world" where
  "answering replies =
     \<lparr>connecting = Ready, upgrading = Ready, incoming = replies, actions = []\<rparr>"


text \<open>
  Two clients, one for implicit TLS on port 465 without credentials and one for STARTTLS
  on port 587 with credentials; a message; and the readings of a clock.
\<close>

definition config465 :: SMTPConfig where
  "config465 =
     \<lparr>host = js ''smtp.example.org'', port = 465, secure = Some True, auth = None,
      timeout = None\<rparr>"

definition config587 :: SMTPConfig where
  "config587 =
     \<lparr>host = js ''smtp.example.org'', port = 587, secure = None,
      auth = Some \<lparr>user = js ''user'', pass = js ''pass''\<rparr>, timeout = None\<rparr>"

definition letter :: EmailMessage where
  "letter =
     \<lparr>msg_to = Many [js ''a@x.org'', js ''b@x.org''], msg_from = js ''me@x.org'',
      msg_subject = js ''Hi'', msg_text = Some (js ''Hello''), msg_html = None,
      msg_cc = Some (One (js ''c@x.org'')), msg_bcc = Some (Many [js ''d@x.org'']),
      msg_replyTo = None\<rparr>"

definition clock :: readings where
  "clock =
     \<lparr>date_string = js ''Thu, 01 Jan 1970 00:00:00 GMT'', header_timestamp = 0,
      header_random = js ''abc'', result_timestamp = 1, result_random = js ''xyz''\<rparr>"

subsection \<open>Whole calls\<close>

text \<open>
  The driver at the scale of a call: connect, run the steps, destroy the socket.
\<close>

definition call :: "SMTPConfig \<Rightarrow> step list \<Rightarrow> unit promise" where
  "call config steps =
     await (createConnection config) (\<lambda>_.
     await (run_steps config steps) (\<lambda>_.
     perform (Destroy (session_socket config))))"

text \<open>
  How far a run of steps gets from \<open>w\<close> to \<open>w'\<close>. It appends actions, among them no
  \<open>Open\<close> and no \<open>Destroy\<close>; the lines it writes are the first \<open>n\<close> commands of the
  list, each taking one reply; and the \<open>k\<close>-th command is among them exactly when it
  exists, every command before it was accepted and an upgrade before it, if there is
  one, succeeded.
\<close>

definition progress :: "step list \<Rightarrow> world \<Rightarrow> world \<Rightarrow> nat \<Rightarrow> bool" where
  "progress steps w w' n \<longleftrightarrow>
     (\<exists>new. actions w' = actions w @ new \<and> written new = take n (commands steps) \<and>
        (\<forall>s. Open s \<notin> set new \<and> Destroy s \<notin> set new)) \<and>
     incoming w' = drop n (incoming w) \<and>
     connecting w' = connecting w \<and> upgrading w' = upgrading w \<and>
     (\<forall>k. k < n \<longleftrightarrow>
        k < length (commands steps) \<and> (\<forall>i<k. accepted (reply w i)) \<and>
        (upgrade_before steps k \<longrightarrow> upgrading w = Ready))"

text \<open>
  The same for a call: it opens one socket, first of all, and destroys the socket of the
  session exactly when it succeeds.
\<close>

definition call_progress ::
  "SMTPConfig \<Rightarrow> step list \<Rightarrow> world \<Rightarrow> (thrown + unit) \<times> world \<Rightarrow> nat \<Rightarrow> bool" where
  "call_progress config steps w result n \<longleftrightarrow>
     (\<exists>new. actions (snd result) = actions w @ Open (first_socket config) # new \<and>
        written new = take n (commands steps) \<and>
        (\<forall>s. Open s \<notin> set new) \<and>
        (\<forall>s. Destroy s \<in> set new \<longleftrightarrow> fst result = Inr () \<and> s = session_socket config)) \<and>
     incoming (snd result) = drop n (incoming w) \<and>
     (\<forall>k. k < n \<longleftrightarrow>
        connecting w = Ready \<and> k < length (commands steps) \<and> (\<forall>i<k. accepted (reply w i)) \<and>
        (upgrade_before steps k \<longrightarrow> upgrading w = Ready))"



section \<open>Properties of address validation\<close>

lemma test_Once:
  "test (Once k # r) s \<longleftrightarrow> (\<exists>c v. s = c # v \<and> in_class k c \<and> test r v)"
  by (cases s) auto

lemma test_Plus:
  "test (Plus k # r) s \<longleftrightarrow>
     (\<exists>u v. s = u @ v \<and> u \<noteq> [] \<and> (\<forall>x \<in> set u. in_class k x) \<and> test r v)"
proof (induction s)
  case Nil
  then show ?case by simp
next
  case (Cons c s)
  show ?case
  proof
    assume "test (Plus k # r) (c # s)"
    then have c: "in_class k c" and d: "test (Plus k # r) s \<or> test r s" by auto
    from d show "\<exists>u v. c # s = u @ v \<and> u \<noteq> [] \<and> (\<forall>x \<in> set u. in_class k x) \<and> test r v"
    proof
      assume "test (Plus k # r) s"
      then obtain u v where "s = u @ v" "u \<noteq> []" "\<forall>x \<in> set u. in_class k x" "test r v"
        using Cons.IH by blast
      with c have "c # s = (c # u) @ v \<and> c # u \<noteq> [] \<and>
          (\<forall>x \<in> set (c # u). in_class k x) \<and> test r v"
        by simp
      then show ?thesis by blast
    next
      assume "test r s"
      with c have "c # s = [c] @ s \<and> [c] \<noteq> [] \<and> (\<forall>x \<in> set [c]. in_class k x) \<and> test r s"
        by simp
      then show ?thesis by blast
    qed
  next
    assume "\<exists>u v. c # s = u @ v \<and> u \<noteq> [] \<and> (\<forall>x \<in> set u. in_class k x) \<and> test r v"
    then obtain u v where uv: "c # s = u @ v" "u \<noteq> []" "\<forall>x \<in> set u. in_class k x" "test r v"
      by blast
    then obtain u' where u: "u = c # u'" by (cases u) auto
    with uv have s: "s = u' @ v" and c: "in_class k c" and all: "\<forall>x \<in> set u'. in_class k x"
      by auto
    show "test (Plus k # r) (c # s)"
    proof (cases "u' = []")
      case True
      with s uv c show ?thesis by simp
    next
      case False
      with s all uv have "test (Plus k # r) s" using Cons.IH by blast
      with c show ?thesis by simp
    qed
  qed
qed

text \<open>The pattern read off as three runs around an \<^verbatim>\<open>@\<close> and a dot.\<close>

lemma validateEmail_parts:
  "validateEmail s \<longleftrightarrow>
     (\<exists>a b c. s = a @ [0x40] @ b @ [0x2E] @ c \<and>
        address_part a \<and> address_part b \<and> address_part c)"
  unfolding validateEmail_def emailRegex_def address_part_def
  apply (simp only: test_Plus test_Once test.simps in_class.simps)
  apply (rule iffI)
   apply (elim exE conjE)
   apply simp
   apply blast
  apply (elim exE conjE)
  apply simp
  by blast

lemma dot_is_plain: "\<not> is_space 0x2E \<and> (0x2E :: 16 word) \<noteq> 0x40"
  by (simp add: is_space_def)

lemma js_at: "js ''@'' = [0x40]"
  by (simp add: js_def)

lemma described_dot_first: "described_address (js ''user@.com'')"
  unfolding described_address_def
  by (rule exI [of _ 4]) (simp add: js_def non_whitespace_def is_space_def)

text \<open>
  C3, as stated: \<open>validateEmail\<close> returns true iff the input consists of a non-whitespace
  local part, an \<^verbatim>\<open>@\<close>, and a non-whitespace domain part containing a dot. This fails:
  \<^verbatim>\<open>user@.com\<close> has that shape (local part \<^verbatim>\<open>user\<close>, domain \<^verbatim>\<open>.com\<close>) and is rejected,
  because the pattern wants a character before the dot.
\<close>

theorem validateEmail_described_counterexample:
  "described_address (js ''user@.com'') \<and> \<not> validateEmail (js ''user@.com'')"
proof
  show "described_address (js ''user@.com'')" by (rule described_dot_first)
  show "\<not> validateEmail (js ''user@.com'')" by code_simp
qed

text \<open>
  C3, amended: \<open>validateEmail\<close> is a total function on strings, and it returns true iff
  the input is a local part, an \<^verbatim>\<open>@\<close> and a domain part, where both parts are non-empty
  and contain neither white space nor \<^verbatim>\<open>@\<close>, and the domain part has a dot that is
  neither its first nor its last character. In particular \<^verbatim>\<open>user@domain.com\<close> and
  \<^verbatim>\<open>user.name+tag@domain.co.uk\<close> yield true, while \<^verbatim>\<open>invalid\<close>, \<^verbatim>\<open>@domain.com\<close>,
  \<^verbatim>\<open>user@\<close> and the empty string yield false.
\<close>

theorem validateEmail_accepts_exactly:
  "(validateEmail s \<longleftrightarrow>
      (\<exists>local domain. s = local @ js ''@'' @ domain \<and>
         address_part local \<and> address_part domain \<and>
         (\<exists>i. 0 < i \<and> Suc i < length domain \<and> domain ! i = 0x2E)))
   \<and> validateEmail (js ''user@domain.com'')
   \<and> validateEmail (js ''user.name+tag@domain.co.uk'')
   \<and> \<not> validateEmail (js ''invalid'')
   \<and> \<not> validateEmail (js ''@domain.com'')
   \<and> \<not> validateEmail (js ''user@'')
   \<and> \<not> validateEmail (js [])"
proof -
  have shape: "validateEmail s \<longleftrightarrow>
      (\<exists>local domain. s = local @ js ''@'' @ domain \<and>
         address_part local \<and> address_part domain \<and>
         (\<exists>i. 0 < i \<and> Suc i < length domain \<and> domain ! i = 0x2E))"
  proof
    assume "validateEmail s"
    then obtain a b c where s: "s = a @ [0x40] @ b @ [0x2E] @ c"
      and a: "address_part a" and b: "address_part b" and c: "address_part c"
      using validateEmail_parts by blast
    let ?d = "b @ [0x2E] @ c"
    from b c dot_is_plain have "address_part ?d"
      by (auto simp: address_part_def)
    moreover from b c have "0 < length b \<and> Suc (length b) < length ?d \<and> ?d ! length b = 0x2E"
      by (simp add: address_part_def)
    ultimately show "\<exists>local domain. s = local @ js ''@'' @ domain \<and> address_part local \<and>
        address_part domain \<and> (\<exists>i. 0 < i \<and> Suc i < length domain \<and> domain ! i = 0x2E)"
      using s a js_at by (metis append_assoc)
  next
    assume "\<exists>local domain. s = local @ js ''@'' @ domain \<and> address_part local \<and>
        address_part domain \<and> (\<exists>i. 0 < i \<and> Suc i < length domain \<and> domain ! i = 0x2E)"
    then obtain l d i where s: "s = l @ [0x40] @ d"
      and l: "address_part l" and d: "address_part d"
      and i: "0 < i" "Suc i < length d" "d ! i = 0x2E"
      using js_at by auto
    from i have split: "d = take i d @ [0x2E] @ drop (Suc i) d"
      using id_take_nth_drop [of i d] by simp
    from d i have "address_part (take i d)"
      by (auto simp: address_part_def dest: in_set_takeD)
    moreover from d i have "address_part (drop (Suc i) d)"
      by (auto simp: address_part_def dest: in_set_dropD)
    ultimately show "validateEmail s"
      using s l split validateEmail_parts by metis
  qed
  have "validateEmail (js ''user@domain.com'')" by code_simp
  moreover have "validateEmail (js ''user.name+tag@domain.co.uk'')" by code_simp
  moreover have "\<not> validateEmail (js ''invalid'')" by code_simp
  moreover have "\<not> validateEmail (js ''@domain.com'')" by code_simp
  moreover have "\<not> validateEmail (js ''user@'')" by code_simp
  moreover have "\<not> validateEmail (js [])" by code_simp
  ultimately show ?thesis using shape by blast
qed

theorem validateEmail_accepts_exactly_witness:
  "validateEmail (js ''a@b.c'') \<and>
   (\<exists>local domain. js ''a@b.c'' = local @ js ''@'' @ domain \<and>
      address_part local \<and> address_part domain \<and>
      (\<exists>i. 0 < i \<and> Suc i < length domain \<and> domain ! i = 0x2E))"
proof -
  have "validateEmail (js ''a@b.c'')" by code_simp
  then show ?thesis using validateEmail_accepts_exactly [of "js ''a@b.c''"] by blast
qed

section \<open>Properties of one command and its response\<close>

lemma digit_value_less: "digit_value radix c = Some d \<Longrightarrow> d < radix"
  by (auto simp: digit_value_def Let_def split: if_splits option.splits)

lemma read_digits_Some_bound:
  "0 < radix \<Longrightarrow> read_digits radix (Some a) s = Some n \<Longrightarrow> n < (a + 1) * radix ^ length s"
proof (induction s arbitrary: a)
  case Nil
  then show ?case by simp
next
  case (Cons c s)
  show ?case
  proof (cases "digit_value radix c")
    case None
    with Cons.prems have "n = a" by simp
    moreover from Cons.prems have "1 \<le> radix ^ length (c # s)" by simp
    then have "(a + 1) * 1 \<le> (a + 1) * radix ^ length (c # s)" by (rule mult_le_mono2)
    ultimately show ?thesis by simp
  next
    case (Some d)
    with Cons.prems have "read_digits radix (Some (a * radix + d)) s = Some n" by simp
    with Cons.prems have "n < (a * radix + d + 1) * radix ^ length s" using Cons.IH by blast
    moreover from Some have "d < radix" by (rule digit_value_less)
    then have "a * radix + d + 1 \<le> (a + 1) * radix" by (simp add: algebra_simps)
    then have "(a * radix + d + 1) * radix ^ length s \<le> ((a + 1) * radix) * radix ^ length s"
      by (rule mult_le_mono1)
    moreover have "((a + 1) * radix) * radix ^ length s = (a + 1) * radix ^ length (c # s)"
      by (simp add: algebra_simps)
    ultimately show ?thesis by linarith
  qed
qed

lemma read_digits_None_bound:
  assumes "0 < radix" "read_digits radix None s = Some n"
  shows "n < radix ^ length s"
proof (cases s)
  case Nil
  with assms show ?thesis by simp
next
  case (Cons c cs)
  show ?thesis
  proof (cases "digit_value radix c")
    case None
    with Cons assms show ?thesis by simp
  next
    case (Some d)
    with Cons assms have "read_digits radix (Some d) cs = Some n" by simp
    with assms have "n < (d + 1) * radix ^ length cs" using read_digits_Some_bound by blast
    moreover from Some have "d + 1 \<le> radix" using digit_value_less by fastforce
    then have "(d + 1) * radix ^ length cs \<le> radix * radix ^ length cs" by (rule mult_le_mono1)
    ultimately show ?thesis using Cons by simp
  qed
qed

lemma digit_value_10: "digit_value 10 c = (if is_digit c then Some (unat c - 48) else None)"
proof -
  have *: "(0x30::16 word) \<le> c \<Longrightarrow> c \<le> 0x39 \<Longrightarrow> unat c - 48 < 10"
    by (simp add: word_le_nat_alt)
  have "0x61 \<le> c \<Longrightarrow> c \<le> 0x7A \<Longrightarrow> \<not> unat c - 87 < 10"
    by (simp add: word_le_nat_alt)
  moreover have "0x41 \<le> c \<Longrightarrow> c \<le> 0x5A \<Longrightarrow> \<not> unat c - 55 < 10"
    by (simp add: word_le_nat_alt)
  ultimately show ?thesis using *
    by (auto simp: digit_value_def is_digit_def Let_def)
qed

lemma digit_not_space: "is_digit c \<Longrightarrow> \<not> is_space c \<and> c \<noteq> 0x2B \<and> c \<noteq> 0x2D \<and> c \<noteq> 0x78 \<and> c \<noteq> 0x58"
  by (auto simp: is_digit_def is_space_def word_le_nat_alt)

text \<open>Three digits parse to their decimal value.\<close>

lemma parseInt_three_digits:
  assumes "is_digit a" "is_digit b" "is_digit c"
  shows "parseInt (a # b # c # []) = Some (int (100 * (unat a - 48) + 10 * (unat b - 48) + (unat c - 48)))"
  using assms digit_not_space [of a] digit_not_space [of b]
  by (simp add: parseInt_def digit_value_10)

lemma dropWhile_same_length: "length (dropWhile P xs) = length xs \<Longrightarrow> dropWhile P xs = xs"
  by (metis append_self_conv2 length_append takeWhile_dropWhile_id add_cancel_right_left length_0_conv)

lemma read_three_digits:
  assumes "read_digits 10 None [a, b, c] = Some n" "400 \<le> n"
  shows "is_digit a \<and> is_digit b \<and> is_digit c"
proof -
  have small: "\<And>x. is_digit x \<Longrightarrow> unat x - 48 < 10"
    by (auto simp: is_digit_def word_le_nat_alt)
  have a: "is_digit a" using assms by (auto simp: digit_value_10 split: if_splits)
  have b: "is_digit b"
  proof (rule ccontr)
    assume "\<not> is_digit b"
    with a assms have "n = unat a - 48" by (simp add: digit_value_10)
    with small [OF a] assms show False by simp
  qed
  have c: "is_digit c"
  proof (rule ccontr)
    assume "\<not> is_digit c"
    with a b assms have "n = (unat a - 48) * 10 + (unat b - 48)" by (simp add: digit_value_10)
    with small [OF a] small [OF b] assms show False by simp
  qed
  from a b c show ?thesis by simp
qed

text \<open>A string of at most three characters that parses to 400 or more is three digits.\<close>

lemma parseInt_400:
  assumes len: "length t \<le> 3" and v: "parseInt t = Some v" and big: "400 \<le> v"
  shows "\<exists>a b c. t = [a, b, c] \<and> is_digit a \<and> is_digit b \<and> is_digit c"
proof -
  define s1 where "s1 = dropWhile is_space t"
  define s2 where "s2 = (if s1 \<noteq> [] \<and> (hd s1 = 0x2B \<or> hd s1 = 0x2D) then tl s1 else s1)"
  define hex where "hex \<longleftrightarrow> 2 \<le> length s2 \<and> s2 ! 0 = 0x30 \<and> (s2 ! 1 = 0x78 \<or> s2 ! 1 = 0x58)"
  define s3 where "s3 = (if hex then drop 2 s2 else s2)"
  define radix :: nat where "radix = (if hex then 16 else 10)"
  from v obtain n where n: "read_digits radix None s3 = Some n" and vn: "v = int n \<or> v = - int n"
    unfolding parseInt_def s1_def [symmetric] Let_def s2_def [symmetric] hex_def [symmetric]
      s3_def [symmetric] radix_def [symmetric]
    by (auto split: option.splits if_splits)
  from vn big have n400: "400 \<le> n" by auto
  have l1: "length s1 \<le> length t" by (simp add: s1_def length_dropWhile_le)
  have l2: "length s2 \<le> length s1" by (simp add: s2_def)
  have "0 < radix" by (simp add: radix_def)
  then have bound: "n < radix ^ length s3" using n by (rule read_digits_None_bound)
  have "\<not> hex"
  proof
    assume hex
    then have "length s3 \<le> 1" "radix = 16" using l1 l2 len by (simp_all add: s3_def radix_def)
    then have "radix ^ length s3 \<le> 16" by (cases "length s3") auto
    with bound n400 show False by simp
  qed
  then have r: "radix = 10" and s3: "s3 = s2" by (simp_all add: radix_def s3_def)
  have "length s2 \<ge> 3"
  proof (rule ccontr)
    assume "\<not> 3 \<le> length s2"
    then have "length s2 \<le> 2" by simp
    then have "(10::nat) ^ length s2 \<le> 10 ^ 2" by (rule power_increasing) simp
    with bound r s3 n400 show False by simp
  qed
  with l1 l2 len have eq: "length s2 = length s1" "length s1 = length t" "length t = 3" by simp_all
  then have "s1 = t" unfolding s1_def by (simp add: dropWhile_same_length)
  moreover from eq have "s2 = s1" unfolding s2_def by (auto split: if_splits)
  ultimately have "s3 = t" using s3 by simp
  moreover from eq obtain a b c where t: "t = [a, b, c]"
    by (metis (no_types, opaque_lifting) length_0_conv length_Suc_conv numeral_3_eq_3)
  ultimately have "read_digits 10 None [a, b, c] = Some n" using n r by simp
  with n400 t show ?thesis using read_three_digits by blast
qed




text \<open>
  The comparison \<^verbatim>\<open>code >= 400\<close> of \<open>sendCommand\<close> holds exactly for a response that opens
  with three digits making 400 or more, and \<^verbatim>\<open>${code}\<close> then prints those digits.
\<close>

lemma status_code_parseInt:
  assumes "status_code response = Some code"
  shows "parseInt (substring 0 3 response) = Some (int code)"
proof -
  from assms obtain a b c rest where r: "response = a # b # c # rest"
    and d: "is_digit a" "is_digit b" "is_digit c"
    and code: "code = 100 * (unat a - 48) + 10 * (unat b - 48) + (unat c - 48)"
    by (auto simp: status_code_def split: list.splits if_splits)
  from r have "substring 0 3 response = [a, b, c]" by (simp add: substring_def)
  with d code show ?thesis by (simp add: parseInt_three_digits)
qed

lemma at_least_400_iff:
  "at_least (parseInt (substring 0 3 response)) 400 \<longleftrightarrow>
     (\<exists>code. status_code response = Some code \<and> 400 \<le> code)"
proof
  assume "at_least (parseInt (substring 0 3 response)) 400"
  then obtain v where v: "parseInt (substring 0 3 response) = Some v" "400 \<le> v"
    by (cases "parseInt (substring 0 3 response)") auto
  have "length (substring 0 3 response) \<le> 3" by (simp add: substring_def)
  with v obtain a b c where t: "substring 0 3 response = [a, b, c]"
    and d: "is_digit a" "is_digit b" "is_digit c"
    using parseInt_400 by blast
  have "response = take 3 response @ drop 3 response" by simp
  with t obtain rest where "response = a # b # c # rest" by (simp add: substring_def)
  with d obtain code where sc: "status_code response = Some code"
    by (simp add: status_code_def)
  with v have "400 \<le> code" using status_code_parseInt by fastforce
  with sc show "\<exists>code. status_code response = Some code \<and> 400 \<le> code" by blast
next
  assume "\<exists>code. status_code response = Some code \<and> 400 \<le> code"
  then show "at_least (parseInt (substring 0 3 response)) 400"
    using status_code_parseInt by fastforce
qed


lemma onData_complete: "onData acc chunks = Some response \<Longrightarrow> endsWith response CRLF"
  by (induction chunks arbitrary: acc) (auto simp: Let_def split: if_splits)

lemma reply_0: "reply w 0 = (case incoming w of [] \<Rightarrow> [] | data # _ \<Rightarrow> data)"
  by (simp add: reply_def split: list.splits)

lemma sendCommand_result: "fst (sendCommand socket command w) = settled command (reply w 0)"
  by (simp add: sendCommand_def reply_0 Let_def)

lemma sendCommand_world:
  "snd (sendCommand socket command w) =
     w\<lparr>actions := actions w @ [Write socket (command @ CRLF)], incoming := tl (incoming w)\<rparr>"
  by (simp add: sendCommand_def Let_def)

lemma settled_accepted:
  "accepted chunks \<Longrightarrow> settled command chunks = Inr (trim (the (onData [] chunks)))"
  by (auto simp: accepted_def settled_def Let_def split: option.splits)

lemma settled_refused: "\<not> accepted chunks \<Longrightarrow> \<exists>e. settled command chunks = Inl (Error e)"
  by (auto simp: accepted_def settled_def Let_def split: option.splits)

lemma settled_Inr_iff: "(\<exists>x. settled command chunks = Inr x) \<longleftrightarrow> accepted chunks"
  using settled_accepted settled_refused by (metis Inl_Inr_False)

text \<open>
  C10: \<open>sendCommand\<close> classifies a complete (CRLF-terminated) response by parsing its
  first three characters as an integer and nothing else: when they do not parse (NaN) or
  parse to less than 400 the promise resolves, otherwise it rejects; and a response that
  does not begin with a digit always resolves.
\<close>

theorem sendCommand_classifies_by_parseInt:
  assumes "onData [] (reply w 0) = Some response"
  shows "endsWith response CRLF \<and>
    fst (sendCommand socket command w) =
      (case parseInt (substring 0 3 response) of
         None \<Rightarrow> Inr (trim response)
       | Some code \<Rightarrow>
           if code < 400 then Inr (trim response)
           else Inl (Error (js ''SMTP Error '' @ number_to_string code @ js '': ''
                            @ trim response))) \<and>
    ((\<forall>c rest. response = c # rest \<longrightarrow> \<not> is_digit c) \<longrightarrow>
       fst (sendCommand socket command w) = Inr (trim response))"
proof (intro conjI impI)
  show "endsWith response CRLF" using assms by (rule onData_complete)
  show by_code: "fst (sendCommand socket command w) =
      (case parseInt (substring 0 3 response) of
         None \<Rightarrow> Inr (trim response)
       | Some code \<Rightarrow>
           if code < 400 then Inr (trim response)
           else Inl (Error (js ''SMTP Error '' @ number_to_string code @ js '': ''
                            @ trim response)))"
    using assms by (cases "parseInt (substring 0 3 response)")
      (simp_all add: sendCommand_result settled_def Let_def not_less)
  assume no_digit: "\<forall>c rest. response = c # rest \<longrightarrow> \<not> is_digit c"
  have "\<not> at_least (parseInt (substring 0 3 response)) 400"
  proof
    assume "at_least (parseInt (substring 0 3 response)) 400"
    then obtain code where "status_code response = Some code" using at_least_400_iff by blast
    then obtain a rest where "response = a # rest" "is_digit a"
      by (auto simp: status_code_def split: list.splits if_splits)
    with no_digit show False by blast
  qed
  with assms show "fst (sendCommand socket command w) = Inr (trim response)"
    by (simp add: sendCommand_result settled_def Let_def)
qed

theorem sendCommand_classifies_by_parseInt_witness:
  "onData [] (reply (answering [[js ''oops 550 '' @ CRLF]]) 0) = Some (js ''oops 550 '' @ CRLF) \<and>
   fst (sendCommand Socket (js ''DATA'') (answering [[js ''oops 550 '' @ CRLF]])) = Inr (js ''oops 550'')"
proof -
  have c: "onData [] (reply (answering [[js ''oops 550 '' @ CRLF]]) 0) = Some (js ''oops 550 '' @ CRLF)"
    by code_simp
  have t: "trim (js ''oops 550 '' @ CRLF) = js ''oops 550''" by code_simp
  have n: "\<forall>c rest. js ''oops 550 '' @ CRLF = c # rest \<longrightarrow> \<not> is_digit c"
    by (simp add: js_def is_digit_def)
  from n have "fst (sendCommand Socket (js ''DATA'') (answering [[js ''oops 550 '' @ CRLF]])) = Inr (trim (js ''oops 550 '' @ CRLF))"
    using sendCommand_classifies_by_parseInt [OF c, of Socket "js ''DATA''"] by blast
  with c t show ?thesis by simp
qed

section \<open>The operations as runs of the step driver\<close>

lemma await_resolve [simp]: "await (resolve x) k = k x"
  by (rule ext) (simp add: await_def resolve_def)

lemma await_reject [simp]: "await (reject e) k = reject e"
  by (rule ext) (simp add: await_def reject_def)

lemma await_assoc: "await (await p f) g = await p (\<lambda>x. await (f x) g)"
  by (rule ext) (simp add: await_def split: prod.splits sum.splits)

lemma await_unit: "await p (\<lambda>_. resolve ()) = p"
  by (rule ext) (auto simp: await_def resolve_def split: prod.splits sum.splits)

lemma run_steps_append:
  "run_steps config (xs @ ys) = await (run_steps config xs) (\<lambda>_. run_steps config ys)"
proof (induction xs)
  case Nil
  then show ?case by simp
next
  case (Cons x xs)
  then show ?case by (cases x) (simp_all add: await_assoc)
qed

lemma rcptTo_run_steps:
  "rcptTo socket emails = run_steps config (map (\<lambda>email. Command socket (rcpt email)) emails)"
  by (induction emails) (simp_all add: rcpt_def)

lemma authenticate_run_steps:
  "(if auth config \<noteq> None then authenticate config (session_socket config) else resolve ())
     = run_steps config (login_steps config)"
  by (cases "auth config") (simp_all add: authenticate_def login_steps_def Let_def)

lemma upgradeToTLS_socket:
  "upgradeToTLS config socket w = (Inr s, w') \<Longrightarrow> s = TLSSocket_over socket"
  by (auto simp: upgradeToTLS_def Let_def await_def perform_def resolve_def reject_def
      split: outcome.splits)

lemma await_same_value:
  assumes "\<And>w x w'. p w = (Inr x, w') \<Longrightarrow> x = c"
  shows "await p k = await p (\<lambda>_. k c)"
proof (rule ext)
  fix w
  show "await p k w = await p (\<lambda>_. k c) w"
    using assms [of w] by (auto simp: await_def split: prod.splits sum.splits)
qed

lemma startTLS_run_steps:
  "startTLS config (first_socket config) =
     await (run_steps config (starttls_steps config)) (\<lambda>_. resolve (session_socket config))"
proof -
  have unfolded: "startTLS config (first_socket config) =
     (if uses_starttls config then
        await (sendCommand (first_socket config) (js ''STARTTLS'')) (\<lambda>_.
        await (upgradeToTLS config (first_socket config)) (\<lambda>socket.
        await (sendCommand socket (js ''EHLO localhost'')) (\<lambda>_.
        resolve socket)))
      else resolve (first_socket config))"
    by (simp add: startTLS_def uses_starttls_def)
  have same: "await (upgradeToTLS config (first_socket config))
          (\<lambda>socket. await (sendCommand socket (js ''EHLO localhost'')) (\<lambda>_. resolve socket))
        = await (upgradeToTLS config (first_socket config))
          (\<lambda>_. await (sendCommand (TLSSocket_over (first_socket config)) (js ''EHLO localhost''))
             (\<lambda>_. resolve (TLSSocket_over (first_socket config))))"
    by (rule await_same_value) (rule upgradeToTLS_socket)
  show ?thesis
  proof (cases "uses_starttls config")
    case True
    then show ?thesis
      unfolding unfolded same
      by (simp add: starttls_steps_def session_socket_def await_assoc)
  next
    case False
    then show ?thesis
      unfolding unfolded
      by (simp add: starttls_steps_def session_socket_def)
  qed
qed

lemma createConnection_socket:
  "createConnection config w = (Inr s, w') \<Longrightarrow> s = first_socket config"
  by (auto simp: createConnection_def first_socket_def Let_def await_def perform_def settle_def
      resolve_def reject_def split: outcome.splits if_splits)

lemma handshake_run_steps:
  "await (sendCommand (first_socket config) (js ''EHLO localhost'')) (\<lambda>_.
     await (startTLS config (first_socket config)) (\<lambda>socket.
     await (if auth config \<noteq> None then authenticate config socket else resolve ()) (\<lambda>_.
     k socket)))
   = await (run_steps config (handshake_steps config)) (\<lambda>_. k (session_socket config))"
proof -
  have "await (startTLS config (first_socket config)) (\<lambda>socket.
          await (if auth config \<noteq> None then authenticate config socket else resolve ()) (\<lambda>_.
          k socket))
        = await (run_steps config (starttls_steps config)) (\<lambda>_.
          await (run_steps config (login_steps config)) (\<lambda>_. k (session_socket config)))"
    by (simp only: startTLS_run_steps await_assoc await_resolve authenticate_run_steps)
  then show ?thesis
    by (simp add: handshake_steps_def run_steps_append await_assoc)
qed

lemma checkConnection_try_run_steps:
  "checkConnection_try config =
     await (createConnection config) (\<lambda>_.
     await (run_steps config (checkConnection_steps config)) (\<lambda>_.
     await (perform (Destroy (session_socket config))) (\<lambda>_.
     resolve True)))"
proof -
  have "checkConnection_try config =
     await (createConnection config) (\<lambda>_.
       await (sendCommand (first_socket config) (js ''EHLO localhost'')) (\<lambda>_.
       await (startTLS config (first_socket config)) (\<lambda>socket.
       await (if auth config \<noteq> None then authenticate config socket else resolve ()) (\<lambda>_.
       await (sendCommand socket (js ''QUIT'')) (\<lambda>_.
       await (perform (Destroy socket)) (\<lambda>_.
       resolve True))))))"
    unfolding checkConnection_try_def
    by (rule await_same_value) (rule createConnection_socket)
  then show ?thesis
    by (simp only: handshake_run_steps)
      (simp add: checkConnection_steps_def run_steps_append await_assoc)
qed

lemma transfer_run_steps:
  "await (sendCommand socket (js ''MAIL FROM:<'' @ msg_from message @ js ''>'')) (\<lambda>_.
     await (rcptTo socket (as_array (msg_to message))) (\<lambda>_.
     await (if truthy_addresses (msg_cc message)
            then rcptTo socket (as_array (the (msg_cc message))) else resolve ()) (\<lambda>_.
     await (if truthy_addresses (msg_bcc message)
            then rcptTo socket (as_array (the (msg_bcc message))) else resolve ()) (\<lambda>_.
     await (sendCommand socket (js ''DATA'')) (\<lambda>_.
     let emailContent = buildEmailContent now message in
     await (sendCommand socket (emailContent @ CRLF @ js ''.'')) (\<lambda>_.
     await (sendCommand socket (js ''QUIT'')) (\<lambda>_. k)))))))
   = await (run_steps config (transfer_steps config now message)) (\<lambda>_. k)"
  if "socket = session_socket config"
proof -
  have cc: "(if truthy_addresses f then rcptTo socket (as_array (the f)) else resolve ())
      = run_steps config (map (Command socket) (map rcpt (recipients f)))" for f
    by (simp add: recipients_def rcptTo_run_steps comp_def)
  have to: "rcptTo socket (as_array (msg_to message))
      = run_steps config (map (Command socket) (map rcpt (as_array (msg_to message))))"
    by (simp add: rcptTo_run_steps comp_def)
  show ?thesis
    unfolding cc to transfer_steps_def that [symmetric] map_append run_steps_append
    by (simp add: await_assoc Let_def)
qed

lemma send_try_run_steps:
  "send_try config now message (as_array (msg_to message)) =
     await (createConnection config) (\<lambda>_.
     await (run_steps config (send_steps config now message)) (\<lambda>_.
     await (perform (Destroy (session_socket config))) (\<lambda>_.
     resolve \<lparr>success = True,
              messageId = Some (generateMessageId (result_timestamp now) (result_random now)),
              error = None\<rparr>)))"
proof -
  have "send_try config now message (as_array (msg_to message)) =
     await (createConnection config) (\<lambda>_.
       await (sendCommand (first_socket config) (js ''EHLO localhost'')) (\<lambda>_.
       await (startTLS config (first_socket config)) (\<lambda>socket.
       await (if auth config \<noteq> None then authenticate config socket else resolve ()) (\<lambda>_.
       await (sendCommand socket (js ''MAIL FROM:<'' @ msg_from message @ js ''>'')) (\<lambda>_.
       await (rcptTo socket (as_array (msg_to message))) (\<lambda>_.
       await (if truthy_addresses (msg_cc message)
              then rcptTo socket (as_array (the (msg_cc message))) else resolve ()) (\<lambda>_.
       await (if truthy_addresses (msg_bcc message)
              then rcptTo socket (as_array (the (msg_bcc message))) else resolve ()) (\<lambda>_.
       await (sendCommand socket (js ''DATA'')) (\<lambda>_.
       let emailContent = buildEmailContent now message in
       await (sendCommand socket (emailContent @ CRLF @ js ''.'')) (\<lambda>_.
       await (sendCommand socket (js ''QUIT'')) (\<lambda>_.
       await (perform (Destroy socket)) (\<lambda>_.
       resolve \<lparr>success = True,
                messageId = Some (generateMessageId (result_timestamp now) (result_random now)),
                error = None\<rparr>))))))))))))"
    unfolding send_try_def
    by (rule await_same_value) (rule createConnection_socket)
  also have "\<dots> =
     await (createConnection config) (\<lambda>_.
       await (run_steps config (handshake_steps config)) (\<lambda>_.
       await (run_steps config (transfer_steps config now message)) (\<lambda>_.
       await (perform (Destroy (session_socket config))) (\<lambda>_.
       resolve \<lparr>success = True,
                messageId = Some (generateMessageId (result_timestamp now) (result_random now)),
                error = None\<rparr>))))"
    by (simp only: handshake_run_steps transfer_run_steps [OF refl])
  also have "\<dots> =
     await (createConnection config) (\<lambda>_.
       await (run_steps config (send_steps config now message)) (\<lambda>_.
       await (perform (Destroy (session_socket config))) (\<lambda>_.
       resolve \<lparr>success = True,
                messageId = Some (generateMessageId (result_timestamp now) (result_random now)),
                error = None\<rparr>)))"
    by (simp only: send_steps_def run_steps_append await_assoc)
  finally show ?thesis .
qed

section \<open>How far a run of steps gets\<close>

lemma written_append: "written (xs @ ys) = written xs @ written ys"
  by (induction xs rule: written.induct) simp_all

lemma sendCommand_eq:
  "sendCommand socket command w =
     (settled command (reply w 0),
      w\<lparr>actions := actions w @ [Write socket (command @ CRLF)], incoming := tl (incoming w)\<rparr>)"
  by (simp add: sendCommand_def reply_0 Let_def)

lemma reply_after_send:
  "reply (w\<lparr>actions := a, incoming := tl (incoming w)\<rparr>) i = reply w (Suc i)"
  by (cases "incoming w") (simp_all add: reply_def)

lemma upgradeToTLS_eq:
  "upgradeToTLS config socket w =
     (case upgrading w of
        Ready \<Rightarrow> (Inr (TLSSocket_over socket),
                  w\<lparr>actions := actions w @ [Wrap socket, Console_log (js ''TLS upgrade successful'')]\<rparr>)
      | Failed e \<Rightarrow> (Inl e,
                  w\<lparr>actions := actions w @ [Wrap socket, Console_error (js ''TLS upgrade failed:'') e]\<rparr>)
      | Timer \<Rightarrow> (Inl (Error (js ''TLS upgrade timeout'')),
                  w\<lparr>actions := actions w @ [Wrap socket]\<rparr>))"
  by (simp add: upgradeToTLS_def Let_def await_def perform_def resolve_def reject_def
      split: outcome.splits)

lemma run_steps_progress: "\<exists>n. progress steps w (snd (run_steps config steps w)) n"
proof (induction steps arbitrary: w)
  case Nil
  have "progress [] w w 0" by (simp add: progress_def)
  then show ?case by (auto simp: resolve_def)
next
  case (Cons step steps)
  show ?case
  proof (cases step)
    case (Command socket command)
    define w1 where "w1 = w\<lparr>actions := actions w @ [Write socket (command @ CRLF)],
                            incoming := tl (incoming w)\<rparr>"
    have r1: "\<And>i. reply w1 i = reply w (Suc i)" by (simp add: w1_def reply_after_send)
    show ?thesis
    proof (cases "accepted (reply w 0)")
      case True
      then obtain x where "settled command (reply w 0) = Inr x" using settled_Inr_iff by blast
      then have run: "run_steps config (step # steps) w = run_steps config steps w1"
        by (simp add: Command await_def sendCommand_eq w1_def)
      from Cons.IH [of w1] obtain n where n: "progress steps w1 (snd (run_steps config steps w1)) n"
        by blast
      let ?w' = "snd (run_steps config steps w1)"
      from n obtain new where new: "actions ?w' = actions w1 @ new"
        "written new = take n (commands steps)" "\<forall>s. Open s \<notin> set new \<and> Destroy s \<notin> set new"
        by (auto simp: progress_def)
      have "actions ?w' = actions w @ (Write socket (command @ CRLF) # new)"
        using new by (simp add: w1_def)
      moreover have "written (Write socket (command @ CRLF) # new) = take (Suc n) (commands (step # steps))"
        using new by (simp add: Command)
      moreover have "\<forall>s. Open s \<notin> set (Write socket (command @ CRLF) # new) \<and>
          Destroy s \<notin> set (Write socket (command @ CRLF) # new)"
        using new by simp
      moreover have "incoming ?w' = drop (Suc n) (incoming w)"
        using n by (simp add: progress_def w1_def drop_Suc)
      moreover have "connecting ?w' = connecting w \<and> upgrading ?w' = upgrading w"
        using n by (simp add: progress_def w1_def)
      moreover have "k < Suc n \<longleftrightarrow>
          k < length (commands (step # steps)) \<and> (\<forall>i<k. accepted (reply w i)) \<and>
          (upgrade_before (step # steps) k \<longrightarrow> upgrading w = Ready)" for k
      proof (cases k)
        case 0
        then show ?thesis by (simp add: Command)
      next
        case (Suc k')
        from n have "k' < n \<longleftrightarrow> k' < length (commands steps) \<and> (\<forall>i<k'. accepted (reply w1 i)) \<and>
            (upgrade_before steps k' \<longrightarrow> upgrading w1 = Ready)"
          by (simp add: progress_def)
        moreover have "upgrading w1 = upgrading w" by (simp add: w1_def)
        ultimately show ?thesis
          using True by (simp add: Suc Command r1 All_less_Suc2)
      qed
      ultimately have "progress (step # steps) w ?w' (Suc n)"
        unfolding progress_def by blast
      with run show ?thesis by auto
    next
      case False
      then obtain e where "settled command (reply w 0) = Inl (Error e)"
        using settled_refused by blast
      then have run: "run_steps config (step # steps) w = (Inl (Error e), w1)"
        by (simp add: Command await_def sendCommand_eq w1_def)
      have "actions w1 = actions w @ [Write socket (command @ CRLF)]" by (simp add: w1_def)
      moreover have "written [Write socket (command @ CRLF)] = take 1 (commands (step # steps))"
        by (simp add: Command)
      moreover have "\<forall>s. Open s \<notin> set [Write socket (command @ CRLF)] \<and>
          Destroy s \<notin> set [Write socket (command @ CRLF)]"
        by simp
      moreover have "incoming w1 = drop 1 (incoming w)" by (simp add: w1_def drop_Suc)
      moreover have "connecting w1 = connecting w \<and> upgrading w1 = upgrading w"
        by (simp add: w1_def)
      moreover have "k < 1 \<longleftrightarrow>
          k < length (commands (step # steps)) \<and> (\<forall>i<k. accepted (reply w i)) \<and>
          (upgrade_before (step # steps) k \<longrightarrow> upgrading w = Ready)" for k
        using False by (cases k) (auto simp: Command)
      ultimately have "progress (step # steps) w w1 1"
        unfolding progress_def by blast
      with run show ?thesis by auto
    qed
  next
    case (Upgrade socket)
    show ?thesis
    proof (cases "upgrading w = Ready")
      case True
      define w1 where "w1 = w\<lparr>actions := actions w @
          [Wrap socket, Console_log (js ''TLS upgrade successful'')]\<rparr>"
      have r1: "\<And>i. reply w1 i = reply w i" by (simp add: w1_def reply_def)
      from True have run: "run_steps config (step # steps) w = run_steps config steps w1"
        by (simp add: Upgrade await_def upgradeToTLS_eq w1_def)
      from Cons.IH [of w1] obtain n where n: "progress steps w1 (snd (run_steps config steps w1)) n"
        by blast
      let ?w' = "snd (run_steps config steps w1)"
      let ?pre = "[Wrap socket, Console_log (js ''TLS upgrade successful'')]"
      from n obtain new where new: "actions ?w' = actions w1 @ new"
        "written new = take n (commands steps)" "\<forall>s. Open s \<notin> set new \<and> Destroy s \<notin> set new"
        by (auto simp: progress_def)
      have "actions ?w' = actions w @ (?pre @ new)"
        using new by (simp add: w1_def)
      moreover have "written (?pre @ new) = take n (commands (step # steps))"
        using new by (simp add: Upgrade)
      moreover have "\<forall>s. Open s \<notin> set (?pre @ new) \<and> Destroy s \<notin> set (?pre @ new)"
        using new by simp
      moreover have "incoming ?w' = drop n (incoming w)"
        using n by (simp add: progress_def w1_def)
      moreover have "connecting ?w' = connecting w \<and> upgrading ?w' = upgrading w"
        using n by (simp add: progress_def w1_def)
      moreover have "k < n \<longleftrightarrow>
          k < length (commands (step # steps)) \<and> (\<forall>i<k. accepted (reply w i)) \<and>
          (upgrade_before (step # steps) k \<longrightarrow> upgrading w = Ready)" for k
      proof -
        from n have "k < n \<longleftrightarrow> k < length (commands steps) \<and> (\<forall>i<k. accepted (reply w1 i)) \<and>
            (upgrade_before steps k \<longrightarrow> upgrading w1 = Ready)"
          by (simp add: progress_def)
        moreover have "upgrading w1 = upgrading w" by (simp add: w1_def)
        ultimately show ?thesis using True by (simp add: Upgrade r1)
      qed
      ultimately have "progress (step # steps) w ?w' n"
        unfolding progress_def by blast
      with run show ?thesis by auto
    next
      case False
      obtain e new where run: "run_steps config (step # steps) w = (Inl e, w\<lparr>actions := actions w @ new\<rparr>)"
        and new: "written new = []" "\<forall>s. Open s \<notin> set new \<and> Destroy s \<notin> set new"
        using False by (cases "upgrading w") (auto simp: Upgrade await_def upgradeToTLS_eq)
      have "progress (step # steps) w (w\<lparr>actions := actions w @ new\<rparr>) 0"
        unfolding progress_def using new False by (auto simp: Upgrade)
      with run show ?thesis by auto
    qed
  qed
qed



lemma reply_after_actions: "reply (w\<lparr>actions := a\<rparr>) i = reply w i"
  by (simp add: reply_def)



section \<open>The two step lists\<close>









section \<open>A whole call\<close>

lemma createConnection_eq:
  "createConnection config w =
     (case connecting w of
        Ready \<Rightarrow> Inr (first_socket config)
      | Failed e \<Rightarrow> Inl e
      | Timer \<Rightarrow> Inl (Error (js ''Connection timeout'')),
      w\<lparr>actions := actions w @ [Open (first_socket config)]\<rparr>)"
  by (simp add: createConnection_def first_socket_def Let_def await_def perform_def settle_def
      resolve_def reject_def split: outcome.splits)

lemma checkConnection_call:
  "checkConnection config w =
     (case call config (checkConnection_steps config) w of
        (Inr _, w') \<Rightarrow> (True, w')
      | (Inl e, w') \<Rightarrow>
          (False, w'\<lparr>actions := actions w' @ [Console_error (js ''SMTP Connection Error:'') e]\<rparr>))"
  unfolding checkConnection_def checkConnection_try_run_steps call_def
  by (simp add: await_def resolve_def perform_def split: prod.splits sum.splits)

lemma send_call:
  assumes "\<forall>a \<in> set (as_array (msg_to message)). validateEmail a" "validateEmail (msg_from message)"
  shows "send config now message w =
     (case call config (send_steps config now message) w of
        (Inr _, w') \<Rightarrow>
          (\<lparr>success = True,
            messageId = Some (generateMessageId (result_timestamp now) (result_random now)),
            error = None\<rparr>, w')
      | (Inl e, w') \<Rightarrow>
          (\<lparr>success = False, messageId = None,
            error = Some (case e of Error message \<Rightarrow> message
                          | Not_an_Error \<Rightarrow> js ''Unknown SMTP error'')\<rparr>, w'))"
proof -
  from assms(1) have "find (\<lambda>email. \<not> validateEmail email) (as_array (msg_to message)) = None"
    by (simp add: find_None_iff)
  with assms(2) show ?thesis
    unfolding send_def send_try_run_steps call_def Let_def
    by (simp add: await_def resolve_def perform_def split: prod.splits sum.splits)
qed

text \<open>
  A call whose connection fails writes nothing; otherwise it is the run of its steps
  from the world in which the socket has been opened.
\<close>

lemma call_not_connected:
  assumes "connecting w \<noteq> Ready"
  shows "\<exists>e. call config steps w = (Inl e, w\<lparr>actions := actions w @ [Open (first_socket config)]\<rparr>)"
  using assms by (cases "connecting w") (simp_all add: call_def await_def createConnection_eq)

lemma call_connected:
  assumes "connecting w = Ready"
  shows "call config steps w =
     (case run_steps config steps (w\<lparr>actions := actions w @ [Open (first_socket config)]\<rparr>) of
        (Inr _, w') \<Rightarrow> (Inr (), w'\<lparr>actions := actions w' @ [Destroy (session_socket config)]\<rparr>)
      | (Inl e, w') \<Rightarrow> (Inl e, w'))"
  using assms by (simp add: call_def await_def createConnection_eq perform_def split: prod.splits sum.splits)

lemma call_makes_progress: "\<exists>n. call_progress config steps w (call config steps w) n"
proof (cases "connecting w = Ready")
  case False
  then obtain e where "call config steps w = (Inl e, w\<lparr>actions := actions w @ [Open (first_socket config)]\<rparr>)"
    using call_not_connected by blast
  with False have "call_progress config steps w (call config steps w) 0"
    by (simp add: call_progress_def)
  then show ?thesis by blast
next
  case True
  let ?w1 = "w\<lparr>actions := actions w @ [Open (first_socket config)]\<rparr>"
  obtain r w2 where run: "run_steps config steps ?w1 = (r, w2)" by (cases "run_steps config steps ?w1")
  obtain n where "progress steps ?w1 (snd (run_steps config steps ?w1)) n"
    using run_steps_progress by blast
  with run have p: "progress steps ?w1 w2 n" by simp
  then obtain new where new: "actions w2 = actions ?w1 @ new" "written new = take n (commands steps)"
    "\<forall>s. Open s \<notin> set new \<and> Destroy s \<notin> set new"
    by (auto simp: progress_def)
  from p have inc: "incoming w2 = drop n (incoming w)" by (simp add: progress_def)
  from p True have ks: "\<forall>k. k < n \<longleftrightarrow>
        connecting w = Ready \<and> k < length (commands steps) \<and> (\<forall>i<k. accepted (reply w i)) \<and>
        (upgrade_before steps k \<longrightarrow> upgrading w = Ready)"
    by (simp add: progress_def reply_after_actions)
  show ?thesis
  proof (cases r)
    case (Inl e)
    with run True have c: "call config steps w = (Inl e, w2)" by (simp add: call_connected)
    have "call_progress config steps w (Inl e, w2) n"
      unfolding call_progress_def using new inc ks by auto
    with c show ?thesis by auto
  next
    case (Inr u)
    with run True have c: "call config steps w =
        (Inr (), w2\<lparr>actions := actions w2 @ [Destroy (session_socket config)]\<rparr>)"
      by (simp add: call_connected)
    let ?new = "new @ [Destroy (session_socket config)]"
    have "actions (w2\<lparr>actions := actions w2 @ [Destroy (session_socket config)]\<rparr>)
        = actions w @ Open (first_socket config) # ?new"
      using new by simp
    moreover have "written ?new = take n (commands steps)"
      using new by (simp add: written_append)
    moreover have "\<forall>s. Open s \<notin> set ?new" using new by simp
    moreover have "\<forall>s. Destroy s \<in> set ?new \<longleftrightarrow> s = session_socket config" using new by auto
    ultimately have "call_progress config steps w
        (Inr (), w2\<lparr>actions := actions w2 @ [Destroy (session_socket config)]\<rparr>) n"
      unfolding call_progress_def using inc ks by auto
    with c show ?thesis by auto
  qed
qed



section \<open>Validation before any input or output\<close>

lemma call_opens_socket:
  "\<exists>rest. actions (snd (call config steps w)) = actions w @ Open (first_socket config) # rest"
  using call_makes_progress [of config steps w] by (auto simp: call_progress_def)

text \<open>
  C1: when an element of \<^verbatim>\<open>to\<close> fails \<open>validateEmail\<close>, \<open>send\<close> returns the failure
  \<^verbatim>\<open>Invalid email address: <addr>\<close> for such an element, and when \<^verbatim>\<open>to\<close> passes and
  \<^verbatim>\<open>from\<close> fails it returns \<^verbatim>\<open>Invalid from email address: <addr>\<close>; in both cases the
  world is returned as it was, so no socket has been opened. When \<^verbatim>\<open>to\<close> and \<^verbatim>\<open>from\<close>
  pass, the call goes on to open its socket whatever \<^verbatim>\<open>cc\<close> and \<^verbatim>\<open>bcc\<close> hold: they are
  not validated.
\<close>

theorem send_validates_to_and_from_only:
  "((\<exists>a \<in> set (as_array (msg_to message)). \<not> validateEmail a) \<longrightarrow>
      (\<exists>a \<in> set (as_array (msg_to message)). \<not> validateEmail a \<and>
         send config now message w =
           (\<lparr>success = False, messageId = None,
             error = Some (js ''Invalid email address: '' @ a)\<rparr>, w)))
   \<and> ((\<forall>a \<in> set (as_array (msg_to message)). validateEmail a) \<and>
        \<not> validateEmail (msg_from message) \<longrightarrow>
      send config now message w =
        (\<lparr>success = False, messageId = None,
          error = Some (js ''Invalid from email address: '' @ msg_from message)\<rparr>, w))
   \<and> ((\<forall>a \<in> set (as_array (msg_to message)). validateEmail a) \<and>
        validateEmail (msg_from message) \<longrightarrow>
      (\<forall>cc bcc. \<exists>rest.
         actions (snd (send config now (message\<lparr>msg_cc := cc, msg_bcc := bcc\<rparr>) w))
           = actions w @ Open (first_socket config) # rest))"
proof (intro conjI impI allI)
  assume "\<exists>a \<in> set (as_array (msg_to message)). \<not> validateEmail a"
  then obtain a where a: "find (\<lambda>email. \<not> validateEmail email) (as_array (msg_to message)) = Some a"
    by (cases "find (\<lambda>email. \<not> validateEmail email) (as_array (msg_to message))")
      (auto simp: find_None_iff)
  then have "a \<in> set (as_array (msg_to message)) \<and> \<not> validateEmail a"
    by (auto simp: find_Some_iff)
  moreover from a have "send config now message w =
      (\<lparr>success = False, messageId = None, error = Some (js ''Invalid email address: '' @ a)\<rparr>, w)"
    by (simp add: send_def Let_def)
  ultimately show "\<exists>a \<in> set (as_array (msg_to message)). \<not> validateEmail a \<and>
      send config now message w =
        (\<lparr>success = False, messageId = None, error = Some (js ''Invalid email address: '' @ a)\<rparr>, w)"
    by blast
next
  assume "(\<forall>a \<in> set (as_array (msg_to message)). validateEmail a) \<and>
      \<not> validateEmail (msg_from message)"
  then have "find (\<lambda>email. \<not> validateEmail email) (as_array (msg_to message)) = None"
    and "\<not> validateEmail (msg_from message)"
    by (simp_all add: find_None_iff)
  then show "send config now message w =
      (\<lparr>success = False, messageId = None,
        error = Some (js ''Invalid from email address: '' @ msg_from message)\<rparr>, w)"
    by (simp add: send_def Let_def)
next
  fix cc bcc
  let ?m = "message\<lparr>msg_cc := cc, msg_bcc := bcc\<rparr>"
  assume "(\<forall>a \<in> set (as_array (msg_to message)). validateEmail a) \<and>
      validateEmail (msg_from message)"
  then have "\<forall>a \<in> set (as_array (msg_to ?m)). validateEmail a" "validateEmail (msg_from ?m)"
    by simp_all
  then have "send config now ?m w =
     (case call config (send_steps config now ?m) w of
        (Inr _, w') \<Rightarrow>
          (\<lparr>success = True,
            messageId = Some (generateMessageId (result_timestamp now) (result_random now)),
            error = None\<rparr>, w')
      | (Inl e, w') \<Rightarrow>
          (\<lparr>success = False, messageId = None,
            error = Some (case e of Error message \<Rightarrow> message
                          | Not_an_Error \<Rightarrow> js ''Unknown SMTP error'')\<rparr>, w'))"
    by (rule send_call)
  then have "snd (send config now ?m w) = snd (call config (send_steps config now ?m) w)"
    by (simp split: prod.splits sum.splits)
  then show "\<exists>rest. actions (snd (send config now ?m w)) = actions w @ Open (first_socket config) # rest"
    using call_opens_socket [of config "send_steps config now ?m" w] by simp
qed

theorem send_validates_to_and_from_only_witness:
  "(\<exists>a \<in> set (as_array (msg_to (letter\<lparr>msg_to := One (js ''invalid-email'')\<rparr>))). \<not> validateEmail a)
   \<and> send config587 clock (letter\<lparr>msg_to := One (js ''invalid-email'')\<rparr>) (answering []) =
       (\<lparr>success = False, messageId = None,
         error = Some (js ''Invalid email address: invalid-email'')\<rparr>, answering [])
   \<and> list_all validateEmail (as_array (msg_to (letter\<lparr>msg_from := js ''nobody''\<rparr>)))
   \<and> \<not> validateEmail (msg_from (letter\<lparr>msg_from := js ''nobody''\<rparr>))
   \<and> send config587 clock (letter\<lparr>msg_from := js ''nobody''\<rparr>) (answering []) =
       (\<lparr>success = False, messageId = None,
         error = Some (js ''Invalid from email address: nobody'')\<rparr>, answering [])
   \<and> list_all validateEmail (as_array (msg_to letter)) \<and> validateEmail (msg_from letter)
   \<and> (\<exists>rest. actions (snd (send config587 clock
          (letter\<lparr>msg_cc := Some (One (js ''not an address'')), msg_bcc := Some (Many [js ''@'']) \<rparr>)
          (answering []))) = actions (answering []) @ Open (first_socket config587) # rest)"
proof -
  let ?bad_to = "letter\<lparr>msg_to := One (js ''invalid-email'')\<rparr>"
  let ?bad_from = "letter\<lparr>msg_from := js ''nobody''\<rparr>"
  have 1: "\<exists>a \<in> set (as_array (msg_to ?bad_to)). \<not> validateEmail a"
    by (simp add: letter_def) code_simp
  have only: "set (as_array (msg_to ?bad_to)) = {js ''invalid-email''}" by (simp add: letter_def)
  have 2: "(\<forall>a \<in> set (as_array (msg_to ?bad_from)). validateEmail a) \<and>
      \<not> validateEmail (msg_from ?bad_from)"
    by (simp add: letter_def) code_simp
  have 3: "(\<forall>a \<in> set (as_array (msg_to letter)). validateEmail a) \<and> validateEmail (msg_from letter)"
    by (simp add: letter_def) code_simp
  have t: "js ''Invalid email address: '' @ js ''invalid-email'' = js ''Invalid email address: invalid-email''"
    "js ''Invalid from email address: '' @ msg_from ?bad_from = js ''Invalid from email address: nobody''"
    by (simp_all add: js_def)
  from 1 only t(1) have "send config587 clock ?bad_to (answering []) =
       (\<lparr>success = False, messageId = None,
         error = Some (js ''Invalid email address: invalid-email'')\<rparr>, answering [])"
    using send_validates_to_and_from_only [of ?bad_to config587 clock "answering []"] by auto
  moreover from 2 t(2) have "send config587 clock ?bad_from (answering []) =
       (\<lparr>success = False, messageId = None,
         error = Some (js ''Invalid from email address: nobody'')\<rparr>, answering [])"
    using send_validates_to_and_from_only [of ?bad_from config587 clock "answering []"] by simp
  moreover from 3 have "\<exists>rest. actions (snd (send config587 clock
          (letter\<lparr>msg_cc := Some (One (js ''not an address'')), msg_bcc := Some (Many [js ''@'']) \<rparr>)
          (answering []))) = actions (answering []) @ Open (first_socket config587) # rest"
    using send_validates_to_and_from_only [of letter config587 clock "answering []"] by blast
  ultimately show ?thesis using 1 2 3 by (simp add: list_all_iff)
qed

section \<open>The framed message\<close>

lemma join_snoc: "xs \<noteq> [] \<Longrightarrow> join sep (xs @ [y]) = join sep xs @ sep @ y"
  by (induction sep xs rule: join.induct) simp_all

lemma buildEmailContent_lines:
  "buildEmailContent now message =
     join CRLF (header_lines now message @ [[]]
                @ (case body message of None \<Rightarrow> [] | Some b \<Rightarrow> [b]))"
  by (simp add: buildEmailContent_def header_lines_def body_def Let_def)
    (cases "msg_html message"; cases "msg_text message"; simp)

lemma header_lines_not_empty: "header_lines now message \<noteq> []"
  by (simp add: header_lines_def)

text \<open>
  C9: the content is the header block, in the order From, To (the addresses joined by a
  comma and a space when \<^verbatim>\<open>to\<close> is a list), Cc if present, Reply-To if present,
  Subject, Date, Message-ID, then MIME-Version with Content-Type text/html if \<^verbatim>\<open>html\<close>
  is present and Content-Type text/plain otherwise; then one blank line; then the body,
  which is \<^verbatim>\<open>html\<close> when it is present and otherwise \<^verbatim>\<open>text\<close>.
\<close>

theorem buildEmailContent_layout:
  "buildEmailContent now message =
     join CRLF (header_lines now message) @ CRLF
     @ (case body message of None \<Rightarrow> [] | Some b \<Rightarrow> CRLF @ b)
   \<and> header_lines now message =
     [js ''From: '' @ msg_from message,
      js ''To: '' @ (case msg_to message of One a \<Rightarrow> a | Many as \<Rightarrow> join (js '', '') as)]
     @ (if truthy_addresses (msg_cc message)
        then [js ''Cc: '' @ (case the (msg_cc message) of One a \<Rightarrow> a
                             | Many as \<Rightarrow> join (js '', '') as)] else [])
     @ (if truthy_string (msg_replyTo message)
        then [js ''Reply-To: '' @ the (msg_replyTo message)] else [])
     @ [js ''Subject: '' @ msg_subject message,
        js ''Date: '' @ date_string now,
        js ''Message-ID: <'' @ generateMessageId (header_timestamp now) (header_random now)
          @ js ''>'']
     @ (if truthy_string (msg_html message)
        then [js ''MIME-Version: 1.0'', js ''Content-Type: text/html; charset=utf-8'']
        else [js ''Content-Type: text/plain; charset=utf-8''])
   \<and> body message =
     (if truthy_string (msg_html message) then msg_html message
      else if truthy_string (msg_text message) then msg_text message else None)"
proof (intro conjI)
  show "buildEmailContent now message =
     join CRLF (header_lines now message) @ CRLF
     @ (case body message of None \<Rightarrow> [] | Some b \<Rightarrow> CRLF @ b)"
  proof (cases "body message")
    case None
    then show ?thesis
      by (simp add: buildEmailContent_lines join_snoc header_lines_not_empty)
  next
    case (Some b)
    have "join CRLF ((header_lines now message @ [[]]) @ [b])
        = join CRLF (header_lines now message @ [[]]) @ CRLF @ b"
      by (rule join_snoc) simp
    with Some show ?thesis
      by (simp add: buildEmailContent_lines join_snoc header_lines_not_empty)
  qed
  have j: "\<And>x. joined x = (case x of One a \<Rightarrow> a | Many as \<Rightarrow> join (js '', '') as)"
    by (simp split: addresses.splits)
  show "header_lines now message =
     [js ''From: '' @ msg_from message,
      js ''To: '' @ (case msg_to message of One a \<Rightarrow> a | Many as \<Rightarrow> join (js '', '') as)]
     @ (if truthy_addresses (msg_cc message)
        then [js ''Cc: '' @ (case the (msg_cc message) of One a \<Rightarrow> a
                             | Many as \<Rightarrow> join (js '', '') as)] else [])
     @ (if truthy_string (msg_replyTo message)
        then [js ''Reply-To: '' @ the (msg_replyTo message)] else [])
     @ [js ''Subject: '' @ msg_subject message,
        js ''Date: '' @ date_string now,
        js ''Message-ID: <'' @ generateMessageId (header_timestamp now) (header_random now)
          @ js ''>'']
     @ (if truthy_string (msg_html message)
        then [js ''MIME-Version: 1.0'', js ''Content-Type: text/html; charset=utf-8'']
        else [js ''Content-Type: text/plain; charset=utf-8''])"
    unfolding header_lines_def j ..
  show "body message =
     (if truthy_string (msg_html message) then msg_html message
      else if truthy_string (msg_text message) then msg_text message else None)"
    by (rule body_def)
qed

theorem buildEmailContent_layout_witness:
  "buildEmailContent clock letter =
     js ''From: me@x.org'' @ CRLF @ js ''To: a@x.org, b@x.org'' @ CRLF @ js ''Cc: c@x.org'' @ CRLF
     @ js ''Subject: Hi'' @ CRLF @ js ''Date: Thu, 01 Jan 1970 00:00:00 GMT'' @ CRLF
     @ js ''Message-ID: <0.abc@synet.email>'' @ CRLF
     @ js ''Content-Type: text/plain; charset=utf-8'' @ CRLF @ CRLF @ js ''Hello''"
proof -
  have "join CRLF (header_lines clock letter) @ CRLF
     @ (case body letter of None \<Rightarrow> [] | Some b \<Rightarrow> CRLF @ b) =
     js ''From: me@x.org'' @ CRLF @ js ''To: a@x.org, b@x.org'' @ CRLF @ js ''Cc: c@x.org'' @ CRLF
     @ js ''Subject: Hi'' @ CRLF @ js ''Date: Thu, 01 Jan 1970 00:00:00 GMT'' @ CRLF
     @ js ''Message-ID: <0.abc@synet.email>'' @ CRLF
     @ js ''Content-Type: text/plain; charset=utf-8'' @ CRLF @ CRLF @ js ''Hello''"
    by code_simp
  then show ?thesis using buildEmailContent_layout [of clock letter] by simp
qed

section \<open>What a call writes\<close>









section \<open>The order of the steps\<close>









section \<open>A refused command\<close>





lemma checkConnection_result:
  "fst (checkConnection config w) \<longleftrightarrow> fst (call config (checkConnection_steps config) w) = Inr ()"
  unfolding checkConnection_call by (auto split: prod.splits sum.splits)






section \<open>What the caller gets back\<close>







section \<open>The socket of a failed call\<close>

lemma call_failure_no_destroy:
  assumes "fst (call config steps w) \<noteq> Inr ()"
  shows "\<exists>new. actions (snd (call config steps w)) = actions w @ Open (first_socket config) # new \<and>
     (\<forall>s. Destroy s \<notin> set new)"
proof -
  obtain n where "call_progress config steps w (call config steps w) n"
    using call_makes_progress by blast
  with assms show ?thesis unfolding call_progress_def by blast
qed

text \<open>
  C5 says that a call which has opened its socket and then fails tears the socket down
  before it returns. The code does not: \<^verbatim>\<open>socket.destroy()\<close> stands only at the end of
  the \<^verbatim>\<open>try\<close> block, and the \<^verbatim>\<open>catch\<close> block returns without it. Whenever
  \<open>checkConnection\<close> returns false or \<open>send\<close> returns a failure after validation, the
  call has opened a socket and has destroyed none.
\<close>

theorem failed_call_leaves_socket_open:
  "(\<not> fst (checkConnection config w) \<longrightarrow>
      (\<exists>new. actions (snd (checkConnection config w))
                = actions w @ Open (first_socket config) # new \<and>
             (\<forall>s. Destroy s \<notin> set new)))
   \<and> (list_all validateEmail (as_array (msg_to message)) \<and> validateEmail (msg_from message) \<and>
       \<not> success (fst (send config now message w)) \<longrightarrow>
      (\<exists>new. actions (snd (send config now message w))
                = actions w @ Open (first_socket config) # new \<and>
             (\<forall>s. Destroy s \<notin> set new)))"
proof (intro conjI impI)
  assume "\<not> fst (checkConnection config w)"
  then have f: "fst (call config (checkConnection_steps config) w) \<noteq> Inr ()"
    by (simp add: checkConnection_result)
  then obtain new where new: "actions (snd (call config (checkConnection_steps config) w))
      = actions w @ Open (first_socket config) # new" "\<forall>s. Destroy s \<notin> set new"
    using call_failure_no_destroy by blast
  obtain r w' where c: "call config (checkConnection_steps config) w = (r, w')"
    by (cases "call config (checkConnection_steps config) w")
  with f obtain e where r: "r = Inl e" by (cases r) auto
  let ?new = "new @ [Console_error (js ''SMTP Connection Error:'') e]"
  from c r new have "actions (snd (checkConnection config w))
      = actions w @ Open (first_socket config) # ?new \<and> (\<forall>s. Destroy s \<notin> set ?new)"
    by (simp add: checkConnection_call)
  then show "\<exists>new. actions (snd (checkConnection config w))
      = actions w @ Open (first_socket config) # new \<and> (\<forall>s. Destroy s \<notin> set new)"
    by blast
next
  assume a: "list_all validateEmail (as_array (msg_to message)) \<and> validateEmail (msg_from message) \<and>
       \<not> success (fst (send config now message w))"
  then have v: "\<forall>a \<in> set (as_array (msg_to message)). validateEmail a" "validateEmail (msg_from message)"
    by (simp_all add: list_all_iff)
  let ?c = "call config (send_steps config now message) w"
  have "snd (send config now message w) = snd ?c"
    unfolding send_call [OF v] by (auto split: prod.splits sum.splits)
  moreover from a have "fst ?c \<noteq> Inr ()"
    unfolding send_call [OF v] by (cases ?c) auto
  ultimately show "\<exists>new. actions (snd (send config now message w))
      = actions w @ Open (first_socket config) # new \<and> (\<forall>s. Destroy s \<notin> set new)"
    using call_failure_no_destroy [of config "send_steps config now message" w] by simp
qed

theorem failed_call_leaves_socket_open_witness:
  "checkConnection config465 (answering [[js ''554 no service'' @ CRLF]]) =
     (False,
      \<lparr>connecting = Ready, upgrading = Ready, incoming = [],
       actions =
         [Open TLSSocket,
          Write TLSSocket (js ''EHLO localhost'' @ CRLF),
          Console_error (js ''SMTP Connection Error:'')
            (Error (js ''SMTP Error 554: 554 no service''))]\<rparr>)
   \<and> (\<exists>new. actions (snd (checkConnection config465 (answering [[js ''554 no service'' @ CRLF]])))
              = actions (answering [[js ''554 no service'' @ CRLF]])
                @ Open (first_socket config465) # new \<and>
            (\<forall>s. Destroy s \<notin> set new))"
proof -
  let ?w = "answering [[js ''554 no service'' @ CRLF]]"
  have e: "checkConnection config465 ?w =
     (False,
      \<lparr>connecting = Ready, upgrading = Ready, incoming = [],
       actions =
         [Open TLSSocket,
          Write TLSSocket (js ''EHLO localhost'' @ CRLF),
          Console_error (js ''SMTP Connection Error:'')
            (Error (js ''SMTP Error 554: 554 no service''))]\<rparr>)"
    by code_simp
  then have "\<not> fst (checkConnection config465 ?w)" by simp
  with e show ?thesis
    using failed_call_leaves_socket_open [of config465 ?w letter clock] by blast
qed

section \<open>The STARTTLS step\<close>







end
